theory Spec2Isabelle
  imports Main "HOL-Library.AList" "HOL-Library.Char_ord" "HOL-Library.List_Lexorder"
begin

section \<open>Data model of \<^verbatim>\<open>nipype/pipeline/node_wrapper.py\<close>\<close>

text \<open>
  Python values that can be bound to an input or output parameter. A value is a scalar
  or a list; \<^verbatim>\<open>type(v) is type([])\<close> of the source is \<open>is_list\<close>.
\<close>

datatype pyval = PNone | PBool bool | PInt int | PStr string | PList "pyval list"

fun is_list :: "pyval \<Rightarrow> bool" where
  "is_list (PList xs) = True"
| "is_list v = False"

text \<open>
  A value as a sequence: the elements of a list, or the scalar alone
  (\<^verbatim>\<open>[v]\<close> for a \<^verbatim>\<open>v\<close> that is not a list).
\<close>

fun elements :: "pyval \<Rightarrow> pyval list" where
  "elements (PList xs) = xs"
| "elements v = [v]"

text \<open>
  The exceptions the module raises itself (\<^verbatim>\<open>Exception\<close>, \<^verbatim>\<open>ValueError\<close>,
  \<^verbatim>\<open>StandardError\<close>, \<^verbatim>\<open>IOError\<close>), the ones the Python runtime raises inside it
  (\<^verbatim>\<open>KeyError\<close>, \<^verbatim>\<open>AttributeError\<close>, \<^verbatim>\<open>UnboundLocalError\<close>,
  \<^verbatim>\<open>IndexError\<close>, \<^verbatim>\<open>TypeError\<close>), and whatever a collaborator raises.
\<close>

datatype error =
    Exception string
  | ValueError string
  | StandardError string
  | IOError string
  | KeyError string
  | AttributeError string
  | UnboundLocalError string
  | IndexError string
  | TypeError string
  | OtherError string

text \<open>
  A \<^verbatim>\<open>Bunch\<close> is a dictionary with string keys. It is kept as an association list with
  distinct keys, in the order the keys were first set: reading a missing key raises
  \<^verbatim>\<open>KeyError\<close>, writing replaces the binding in place or adds one at the end.
\<close>

type_synonym bunch = "(string \<times> pyval) list"

definition bunch_get :: "bunch \<Rightarrow> string \<Rightarrow> error + pyval" where
  "bunch_get b k = (case map_of b k of None \<Rightarrow> Inl (KeyError k) | Some v \<Rightarrow> Inr v)"

definition bunch_set :: "string \<Rightarrow> pyval \<Rightarrow> bunch \<Rightarrow> bunch" where
  "bunch_set k v b = AList.update k v b"

text \<open>The runtime record of one execution, and what \<^verbatim>\<open>interface.run()\<close> returns.\<close>

record runtime =
  returncode :: int
  stderr :: string

record iresult =
  ir_interface :: string
  ir_runtime :: runtime
  ir_outputs :: bunch

text \<open>
  A field of the node's \<^verbatim>\<open>InterfaceResult\<close> is \<^verbatim>\<open>None\<close> (skip path), a single
  record (one execution) or a list (fan-out).
\<close>

datatype 'a slot = Absent | One 'a | Many "'a list"

record node_result =
  res_interface :: "string slot"
  res_runtime :: "runtime slot"
  res_outputs :: bunch

text \<open>
  The wrapped interface: its class identity, its input bindings, the file-bearing inputs
  it declares (\<^verbatim>\<open>get_input_info()\<close>: key and copy flag), and its two operations, which
  act on the world outside the node (of type \<open>'w\<close>) and may raise.
\<close>

record 'w interface =
  class_name :: string
  class_module :: string
  inputs :: bunch
  get_input_info :: "(string \<times> bool) list"
  interface_run :: "bunch \<Rightarrow> 'w \<Rightarrow> (error + iresult) \<times> 'w"
  aggregate_outputs :: "bunch \<Rightarrow> 'w \<Rightarrow> (error + bunch) \<times> 'w"

record 'w node =
  interface :: "'w interface"
  result :: "node_result option"
  iterables :: "(string \<times> pyval list) list"
  iterfield :: "string list"
  parameterization :: "pyval option"
  disk_based :: bool
  output_directory_base :: "string option"
  overwrite :: "bool option"
  name :: string

section \<open>Construction\<close>

text \<open>\<^verbatim>\<open>str.split(sep)\<close> for a one-character separator; the result is never empty.\<close>

fun py_split :: "char \<Rightarrow> string \<Rightarrow> string list" where
  "py_split c [] = [[]]"
| "py_split c (x # xs) =
     (if x = c then [] # py_split c xs
      else (case py_split c xs of [] \<Rightarrow> [[x]] | p # ps \<Rightarrow> (x # p) # ps))"

text \<open>
  \<^verbatim>\<open>NodeWrapper.__init__\<close>. \<open>None\<close> for the interface, the base directory and the name
  are the defaults of the source. The iterfield is stored and never inspected.
\<close>

definition NodeWrapper_init ::
  "'w interface option \<Rightarrow> (string \<times> pyval list) list \<Rightarrow> string list \<Rightarrow> bool \<Rightarrow>
   string option \<Rightarrow> bool \<Rightarrow> string option \<Rightarrow> error + 'w node" where
  "NodeWrapper_init interface_arg iterables_arg iterfield_arg diskbased base_directory
                    overwrite_arg name_arg =
     (case interface_arg of
        None \<Rightarrow> Inl (Exception ''Interface must be provided'')
      | Some iface \<Rightarrow>
          if \<not> diskbased \<and> base_directory \<noteq> None
          then Inl (ValueError ''Setting base_directory requires a disk based interface'')
          else Inr \<lparr> interface = iface,
                     result = None,
                     iterables = iterables_arg,
                     iterfield = iterfield_arg,
                     parameterization = None,
                     disk_based = diskbased,
                     output_directory_base = (if diskbased then base_directory else None),
                     overwrite = (if diskbased then Some overwrite_arg else None),
                     name = (case name_arg of
                               None \<Rightarrow> class_name iface @ ''.'' @
                                        last (py_split (CHR ''.'') (class_module iface))
                             | Some nm \<Rightarrow> nm) \<rparr>)"

section \<open>Collaborators, the world and the log of calls\<close>

text \<open>
  Everything the module imports is a parameter: the functions of \<^verbatim>\<open>os\<close>,
  \<^verbatim>\<open>tempfile\<close> and \<^verbatim>\<open>hashlib\<close>, the string form of a \<^verbatim>\<open>Bunch\<close>, and the
  helpers of \<^verbatim>\<open>nipype.utils.filemanip\<close>. Those that touch the file system take the
  world and return the new one, and each may raise. \<open>write_file p c\<close> stands for
  \<^verbatim>\<open>fd = open(p, "wt"); fd.writelines(c); fd.close()\<close>. What the module prints is
  left out.
\<close>

record 'w os =
  mkdtemp :: "'w \<Rightarrow> (error + string) \<times> 'w"
  os_path_abspath :: "string \<Rightarrow> string"
  os_path_join :: "string \<Rightarrow> string \<Rightarrow> string"
  os_path_exists :: "string \<Rightarrow> 'w \<Rightarrow> bool"
  os_mkdir :: "string \<Rightarrow> 'w \<Rightarrow> (error + unit) \<times> 'w"
  write_file :: "string \<Rightarrow> string \<Rightarrow> 'w \<Rightarrow> (error + unit) \<times> 'w"
  md5_hexdigest :: "string \<Rightarrow> string"
  bunch_str :: "bunch \<Rightarrow> string"
  cleandir :: "string \<Rightarrow> 'w \<Rightarrow> (error + unit) \<times> 'w"
  filename_to_list :: "pyval \<Rightarrow> error + pyval"
  list_to_filename :: "pyval \<Rightarrow> error + pyval"
  copyfiles :: "pyval \<Rightarrow> pyval \<Rightarrow> bool \<Rightarrow> 'w \<Rightarrow> (error + pyval) \<times> 'w"
  fname_presuffix :: "pyval \<Rightarrow> string \<Rightarrow> error + string"

text \<open>
  The calls the node makes on its collaborators, in the order it makes them. A call on
  the interface is logged with the inputs it was made on and with what it returned.
\<close>

datatype event =
    Mkdtemp
  | Mkdir string
  | Cleandir string
  | Copyfiles pyval pyval bool
  | Execute bunch "error + iresult"
  | AggregateOutputs bunch "error + bunch"
  | WriteFile string string

record 'w state =
  self :: "'w node"
  world :: 'w
  trace :: "event list"

text \<open>
  A statement of the source is a function from the state to an outcome and the new state.
  An exception is the outcome \<open>Inl\<close>; the state it leaves behind is kept, as in Python.
\<close>

definition returnE :: "'a \<Rightarrow> 's \<Rightarrow> (error + 'a) \<times> 's" where
  "returnE x s = (Inr x, s)"

definition raiseE :: "error \<Rightarrow> 's \<Rightarrow> (error + 'a) \<times> 's" where
  "raiseE e s = (Inl e, s)"

definition liftE :: "error + 'a \<Rightarrow> 's \<Rightarrow> (error + 'a) \<times> 's" where
  "liftE r s = (r, s)"

definition bindE ::
  "('s \<Rightarrow> (error + 'a) \<times> 's) \<Rightarrow> ('a \<Rightarrow> 's \<Rightarrow> (error + 'b) \<times> 's) \<Rightarrow> 's \<Rightarrow> (error + 'b) \<times> 's" where
  "bindE m f s = (case m s of (Inl e, s') \<Rightarrow> (Inl e, s') | (Inr x, s') \<Rightarrow> f x s')"

text \<open>\<^verbatim>\<open>try: m except: handler\<close>; the handler sees the state the failure left.\<close>

definition tryE ::
  "('s \<Rightarrow> (error + 'a) \<times> 's) \<Rightarrow> (error \<Rightarrow> 's \<Rightarrow> (error + 'a) \<times> 's) \<Rightarrow> 's \<Rightarrow> (error + 'a) \<times> 's" where
  "tryE m handler s = (case m s of (Inl e, s') \<Rightarrow> handler e s' | (Inr x, s') \<Rightarrow> (Inr x, s'))"

text \<open>A \<^verbatim>\<open>for\<close> loop over a list: the body runs on each element until one raises.\<close>

primrec foreach :: "('a \<Rightarrow> 's \<Rightarrow> (error + unit) \<times> 's) \<Rightarrow> 'a list \<Rightarrow> 's \<Rightarrow> (error + unit) \<times> 's" where
  "foreach body [] s = (Inr (), s)"
| "foreach body (x # xs) s =
     (case body x s of (Inl e, s') \<Rightarrow> (Inl e, s') | (Inr u, s') \<Rightarrow> foreach body xs s')"

text \<open>A call of a file-system collaborator: it acts on the world and is logged.\<close>

definition call :: "('w \<Rightarrow> (error + 'a) \<times> 'w) \<Rightarrow> event \<Rightarrow> 'w state \<Rightarrow> (error + 'a) \<times> 'w state" where
  "call operation ev s =
     (case operation (world s) of (r, w') \<Rightarrow> (r, s\<lparr>world := w', trace := trace s @ [ev]\<rparr>))"

text \<open>\<^verbatim>\<open>self._interface.run()\<close> and \<^verbatim>\<open>self._interface.aggregate_outputs()\<close>.\<close>

definition call_run :: "'w state \<Rightarrow> (error + iresult) \<times> 'w state" where
  "call_run s =
     (let iface = interface (self s) in
      case interface_run iface (inputs iface) (world s) of
        (r, w') \<Rightarrow> (r, s\<lparr>world := w', trace := trace s @ [Execute (inputs iface) r]\<rparr>))"

definition call_aggregate_outputs :: "'w state \<Rightarrow> (error + bunch) \<times> 'w state" where
  "call_aggregate_outputs s =
     (let iface = interface (self s) in
      case aggregate_outputs iface (inputs iface) (world s) of
        (r, w') \<Rightarrow> (r, s\<lparr>world := w', trace := trace s @ [AggregateOutputs (inputs iface) r]\<rparr>))"

text \<open>Reading \<^verbatim>\<open>self\<close> and the world, and remembering the base directory.\<close>

definition get_self :: "'w state \<Rightarrow> (error + 'w node) \<times> 'w state" where
  "get_self s = (Inr (self s), s)"

definition get_world :: "'w state \<Rightarrow> (error + 'w) \<times> 'w state" where
  "get_world s = (Inr (world s), s)"

definition put_output_directory_base :: "string \<Rightarrow> 'w state \<Rightarrow> (error + unit) \<times> 'w state" where
  "put_output_directory_base d s =
     (Inr (), s\<lparr>self := (self s)\<lparr>output_directory_base := Some d\<rparr>\<rparr>)"

text \<open>\<^verbatim>\<open>self.inputs[key]\<close> and \<^verbatim>\<open>self.inputs[key] = v\<close>.\<close>

definition get_input :: "string \<Rightarrow> 'w state \<Rightarrow> (error + pyval) \<times> 'w state" where
  "get_input key s = (bunch_get (inputs (interface (self s))) key, s)"

definition put_input :: "string \<Rightarrow> pyval \<Rightarrow> 'w state \<Rightarrow> (error + unit) \<times> 'w state" where
  "put_input key v s =
     (Inr (), s\<lparr>self := (self s)\<lparr>interface :=
        (interface (self s))\<lparr>inputs := bunch_set key v (inputs (interface (self s)))\<rparr>\<rparr>\<rparr>)"

section \<open>Accessors\<close>

text \<open>
  \<^verbatim>\<open>set_input\<close>. The value is a literal or a callable, which is called on the arguments
  given. On values without identity \<^verbatim>\<open>deepcopy\<close> returns its argument; the copy in an
  object store is modelled in the section on input isolation.
\<close>

datatype input_arg = Literal pyval | Callable "pyval list \<Rightarrow> error + pyval"

definition deepcopy :: "pyval \<Rightarrow> pyval" where
  "deepcopy v = v"

definition set_input :: "string \<Rightarrow> input_arg \<Rightarrow> pyval list \<Rightarrow> 'w state \<Rightarrow> (error + unit) \<times> 'w state" where
  "set_input parameter val args =
     (case val of
        Callable g \<Rightarrow> bindE (liftE (g args)) (\<lambda>v. put_input parameter (deepcopy v))
      | Literal v \<Rightarrow> put_input parameter (deepcopy v))"

definition get_output :: "string \<Rightarrow> 'w node \<Rightarrow> error + pyval option" where
  "get_output parameter n =
     (case result n of
        Some r \<Rightarrow> (case bunch_get (res_outputs r) parameter of
                    Inl e \<Rightarrow> Inl e | Inr v \<Rightarrow> Inr (Some v))
      | None \<Rightarrow> Inr None)"

definition update :: "bunch \<Rightarrow> 'w node \<Rightarrow> 'w node" where
  "update opts n =
     n\<lparr>interface := (interface n)\<lparr>inputs :=
        fold (\<lambda>(k, v). bunch_set k v) opts (inputs (interface n))\<rparr>\<rparr>"

definition hash_inputs :: "'w os \<Rightarrow> 'w node \<Rightarrow> string" where
  "hash_inputs os n = md5_hexdigest os (bunch_str os (inputs (interface n)))"

section \<open>The output directory\<close>

text \<open>\<^verbatim>\<open>_output_directory\<close>: a missing base is created once and remembered.\<close>

definition output_directory :: "'w os \<Rightarrow> 'w state \<Rightarrow> (error + string) \<times> 'w state" where
  "output_directory os =
     bindE get_self (\<lambda>n.
       case output_directory_base n of
         None \<Rightarrow>
           bindE (call (mkdtemp os) Mkdtemp) (\<lambda>d.
           bindE (put_output_directory_base d) (\<lambda>u.
           returnE (os_path_abspath os (os_path_join os d (name n)))))
       | Some d \<Rightarrow> returnE (os_path_abspath os (os_path_join os d (name n))))"

text \<open>\<^verbatim>\<open>_make_output_dir\<close>: raises when the directory exists, else creates it.\<close>

definition make_output_dir :: "'w os \<Rightarrow> string \<Rightarrow> 'w state \<Rightarrow> (error + string) \<times> 'w state" where
  "make_output_dir os outdir =
     bindE get_world (\<lambda>w.
       if os_path_exists os outdir w
       then raiseE (IOError (''Directory '' @ outdir @ '' exists''))
       else bindE (call (os_mkdir os outdir) (Mkdir outdir)) (\<lambda>u. returnE outdir))"

section \<open>Fan-out and aggregation: \<^verbatim>\<open>_run_interface\<close>\<close>

text \<open>
  \<^verbatim>\<open>list.insert(i, x)\<close> for \<open>i \<ge> 0\<close>: before position \<open>i\<close>, at the end when the list
  is shorter.
\<close>

definition list_insert :: "nat \<Rightarrow> 'a \<Rightarrow> 'a list \<Rightarrow> 'a list" where
  "list_insert i x xs = take i xs @ x # drop i xs"

definition slot_insert :: "nat \<Rightarrow> 'a \<Rightarrow> 'a slot \<Rightarrow> error + 'a slot" where
  "slot_insert i x sl =
     (case sl of
        Many xs \<Rightarrow> Inr (Many (list_insert i x xs))
      | One y \<Rightarrow> Inl (AttributeError ''insert'')
      | Absent \<Rightarrow> Inl (AttributeError ''insert''))"

definition get_result :: "'w state \<Rightarrow> (error + node_result) \<times> 'w state" where
  "get_result s =
     (case result (self s) of
        None \<Rightarrow> (Inl (AttributeError ''NoneType''), s)
      | Some r \<Rightarrow> (Inr r, s))"

definition put_result :: "node_result \<Rightarrow> 'w state \<Rightarrow> (error + unit) \<times> 'w state" where
  "put_result r s = (Inr (), s\<lparr>self := (self s)\<lparr>result := Some r\<rparr>\<rparr>)"

text \<open>
  The body of the loop over one iteration's outputs (lines 200-205): insert into the
  list under the key; any failure of that (the key is not there yet) starts a new list.
\<close>

definition merge_output :: "nat \<Rightarrow> string \<times> pyval \<Rightarrow> bunch \<Rightarrow> bunch" where
  "merge_output i kv outs =
     (case kv of (key, val) \<Rightarrow>
        (case bunch_get outs key of
           Inr (PList xs) \<Rightarrow> bunch_set key (PList (list_insert i val xs)) outs
         | Inr v \<Rightarrow> bunch_set key (PList (list_insert i val [])) outs
         | Inl e \<Rightarrow> bunch_set key (PList (list_insert i val [])) outs))"

definition merge_step :: "nat \<Rightarrow> string \<times> pyval \<Rightarrow> 'w state \<Rightarrow> (error + unit) \<times> 'w state" where
  "merge_step i kv =
     bindE get_result (\<lambda>r. put_result (r\<lparr>res_outputs := merge_output i kv (res_outputs r)\<rparr>))"

text \<open>The body of the loop over the iterfield values (lines 191-205).\<close>

definition run_element :: "bool \<Rightarrow> string \<Rightarrow> nat \<times> pyval \<Rightarrow> 'w state \<Rightarrow> (error + unit) \<times> 'w state" where
  "run_element execute field iv =
     (case iv of (i, v) \<Rightarrow>
        bindE (set_input field (Literal v) []) (\<lambda>u.
        bindE (if execute
               then bindE call_run (\<lambda>res.
                    bindE get_result (\<lambda>r.
                    bindE (liftE (slot_insert i (ir_interface res) (res_interface r))) (\<lambda>ri.
                    bindE (put_result (r\<lparr>res_interface := ri\<rparr>)) (\<lambda>u.
                    bindE (liftE (slot_insert i (ir_runtime res) (res_runtime r))) (\<lambda>rt.
                    bindE (put_result (r\<lparr>res_interface := ri, res_runtime := rt\<rparr>)) (\<lambda>u.
                    returnE (ir_outputs res)))))))
               else call_aggregate_outputs) (\<lambda>outputs.
        foreach (merge_step i) outputs)))"

definition run_interface :: "bool \<Rightarrow> 'w state \<Rightarrow> (error + unit) \<times> 'w state" where
  "run_interface execute =
     bindE get_self (\<lambda>n.
       if length (iterfield n) = 1 then
         bindE (get_input (hd (iterfield n))) (\<lambda>itervals0.
         bindE (put_result \<lparr>res_interface = Many [], res_runtime = Many [], res_outputs = []\<rparr>) (\<lambda>u.
         bindE (foreach (run_element execute (hd (iterfield n)))
                        (enumerate 0 (elements itervals0))) (\<lambda>u.
         if \<not> is_list itervals0
         then set_input (hd (iterfield n)) (Literal (last (elements itervals0))) []
         else set_input (hd (iterfield n)) (Literal (PList (elements itervals0))) [])))
       else if execute then
         bindE call_run (\<lambda>res.
           put_result \<lparr>res_interface = One (ir_interface res),
                       res_runtime = One (ir_runtime res),
                       res_outputs = ir_outputs res\<rparr>)
       else
         bindE call_aggregate_outputs (\<lambda>aggouts.
           put_result \<lparr>res_interface = Absent, res_runtime = Absent, res_outputs = aggouts\<rparr>))"

section \<open>The cache decision and the two paths of \<^verbatim>\<open>run\<close>\<close>

text \<open>
  Lines 113-119. Whatever \<^verbatim>\<open>_make_output_dir\<close> raises is swallowed and the run goes on
  in the existing directory. When \<^verbatim>\<open>_output_directory\<close> itself raises, \<^verbatim>\<open>outdir\<close> is
  not bound and the handler's own \<^verbatim>\<open>print\<close> fails.
\<close>

definition resolve_outdir :: "'w os \<Rightarrow> 'w state \<Rightarrow> (error + string) \<times> 'w state" where
  "resolve_outdir os =
     bindE (tryE (output_directory os) (\<lambda>e. raiseE (UnboundLocalError ''outdir''))) (\<lambda>outdir.
     tryE (make_output_dir os outdir) (\<lambda>e. returnE outdir))"

text \<open>The body of the staging loop of the execute path (lines 129-133).\<close>

definition stage_input :: "'w os \<Rightarrow> string \<Rightarrow> string \<times> bool \<Rightarrow> 'w state \<Rightarrow> (error + unit) \<times> 'w state" where
  "stage_input os outdir info =
     (case info of (key, copy) \<Rightarrow>
        bindE (get_input key) (\<lambda>files.
          if files \<noteq> PNone then
            bindE (liftE (filename_to_list os files)) (\<lambda>infiles.
            bindE (call (copyfiles os infiles (PList [PStr outdir]) copy)
                        (Copyfiles infiles (PList [PStr outdir]) copy)) (\<lambda>newfiles.
            bindE (liftE (list_to_filename os newfiles)) (\<lambda>v.
            put_input key v)))
          else returnE ()))"

text \<open>Lines 135-142: the return code of the run, the largest one (or 0) for a list.\<close>

definition get_returncode :: "'w state \<Rightarrow> (error + int) \<times> 'w state" where
  "get_returncode =
     bindE get_result (\<lambda>r.
       case res_runtime r of
         Many rs \<Rightarrow> returnE (fold (\<lambda>rt rc. max (returncode rt) rc) rs 0)
       | One rt \<Rightarrow> returnE (returncode rt)
       | Absent \<Rightarrow> raiseE (AttributeError ''returncode''))"

text \<open>Lines 144-149: the marker is written; an \<^verbatim>\<open>IOError\<close> is printed and dropped.\<close>

definition write_marker :: "'w os \<Rightarrow> string \<Rightarrow> string \<Rightarrow> 'w state \<Rightarrow> (error + unit) \<times> 'w state" where
  "write_marker os hashfile inputstr =
     tryE (call (write_file os hashfile inputstr) (WriteFile hashfile inputstr))
          (\<lambda>e. case e of IOError m \<Rightarrow> returnE () | other \<Rightarrow> raiseE other)"

text \<open>
  Lines 151-154: the message is built from the name, the current inputs and the
  \<^verbatim>\<open>stderr\<close> attribute of the runtime, which a list of runtimes does not have.
\<close>

definition could_not_run :: "'w os \<Rightarrow> 'w state \<Rightarrow> (error + unit) \<times> 'w state" where
  "could_not_run os =
     bindE get_self (\<lambda>n.
     bindE get_result (\<lambda>r.
       case res_runtime r of
         One rt \<Rightarrow>
           raiseE (StandardError
             (''Could not run '' @ name n @
              [CHR 0x0A] @ ''with inputs:'' @ [CHR 0x0A] @ bunch_str os (inputs (interface n)) @
              [CHR 0x0A, CHR 0x09] @ ''stderr: '' @ stderr rt))
       | Many rs \<Rightarrow> raiseE (AttributeError ''stderr'')
       | Absent \<Rightarrow> raiseE (AttributeError ''stderr'')))"

text \<open>Lines 125-154.\<close>

definition execute_path :: "'w os \<Rightarrow> string \<Rightarrow> string \<Rightarrow> string \<Rightarrow> 'w state \<Rightarrow> (error + unit) \<times> 'w state" where
  "execute_path os outdir hashfile inputstr =
     bindE (call (cleandir os outdir) (Cleandir outdir)) (\<lambda>u.
     bindE get_self (\<lambda>n.
     bindE (foreach (stage_input os outdir) (get_input_info (interface n))) (\<lambda>u.
     bindE (run_interface True) (\<lambda>u.
     bindE get_returncode (\<lambda>rc.
     if rc = 0 then write_marker os hashfile inputstr else could_not_run os)))))"

text \<open>The body of the inner loop of the skip path (lines 166-172).\<close>

definition restage_file ::
  "'w os \<Rightarrow> string \<Rightarrow> string \<Rightarrow> bool \<Rightarrow> pyval \<Rightarrow> nat \<times> pyval \<Rightarrow> 'w state \<Rightarrow> (error + unit) \<times> 'w state" where
  "restage_file os outdir key copy files ifile =
     (case ifile of (i, f) \<Rightarrow>
        bindE (liftE (fname_presuffix os f outdir)) (\<lambda>newfile.
        bindE get_world (\<lambda>w.
        bindE (if \<not> os_path_exists os newfile w
               then bindE (call (copyfiles os f (PStr newfile) copy)
                                (Copyfiles f (PStr newfile) copy)) (\<lambda>r. returnE ())
               else returnE ()) (\<lambda>u.
        if \<not> is_list files then put_input key (PStr newfile)
        else bindE (get_input key) (\<lambda>cur.
               case cur of
                 PList ys \<Rightarrow> if i < length ys then put_input key (PList (ys[i := PStr newfile]))
                             else raiseE (IndexError ''list assignment index out of range'')
               | v \<Rightarrow> raiseE (TypeError ''item assignment''))))))"

text \<open>The body of the outer loop of the skip path (lines 159-172).\<close>

definition restage_input :: "'w os \<Rightarrow> string \<Rightarrow> string \<times> bool \<Rightarrow> 'w state \<Rightarrow> (error + unit) \<times> 'w state" where
  "restage_input os outdir info =
     (case info of (key, copy) \<Rightarrow>
        bindE (get_input key) (\<lambda>files.
          if files \<noteq> PNone
          then foreach (restage_file os outdir key copy files) (enumerate 0 (elements files))
          else returnE ()))"

text \<open>Lines 157-173.\<close>

definition skip_path :: "'w os \<Rightarrow> string \<Rightarrow> 'w state \<Rightarrow> (error + unit) \<times> 'w state" where
  "skip_path os outdir =
     bindE get_self (\<lambda>n.
     bindE (foreach (restage_input os outdir) (get_input_info (interface n))) (\<lambda>u.
     run_interface False))"

text \<open>
  Lines 113-120: the output directory is resolved and becomes the \<^verbatim>\<open>cwd\<close> input.
\<close>

definition prepare :: "'w os \<Rightarrow> 'w state \<Rightarrow> (error + string) \<times> 'w state" where
  "prepare os =
     bindE (resolve_outdir os) (\<lambda>outdir.
     bindE (put_input ''cwd'' (PStr outdir)) (\<lambda>u.
     returnE outdir))"

text \<open>Lines 121-124: the marker's path, and the test that sends the run to execution.\<close>

definition hashfile_of :: "'w os \<Rightarrow> string \<Rightarrow> 'w node \<Rightarrow> string" where
  "hashfile_of os outdir n = os_path_join os outdir (''_0x'' @ hash_inputs os n @ ''.txt'')"

definition must_execute :: "'w os \<Rightarrow> string \<Rightarrow> 'w state \<Rightarrow> bool" where
  "must_execute os hashfile s =
     (overwrite (self s) = Some True \<or> \<not> os_path_exists os hashfile (world s))"

definition decide :: "'w os \<Rightarrow> string \<Rightarrow> 'w state \<Rightarrow> (error + unit) \<times> 'w state" where
  "decide os outdir s =
     (let hashfile = hashfile_of os outdir (self s);
          inputstr = bunch_str os (inputs (interface (self s)))
      in if must_execute os hashfile s
         then execute_path os outdir hashfile inputstr s
         else skip_path os outdir s)"

definition run :: "'w os \<Rightarrow> 'w state \<Rightarrow> (error + node_result option) \<times> 'w state" where
  "run os =
     bindE get_self (\<lambda>n.
       if disk_based n then
         bindE (prepare os) (\<lambda>outdir.
         bindE (decide os outdir) (\<lambda>u.
         bindE get_self (\<lambda>n'. returnE (result n'))))
       else
         bindE (run_interface True) (\<lambda>u.
         bindE get_self (\<lambda>n'. returnE (result n'))))"

section \<open>The string form of the inputs\<close>

text \<open>
  Modelled from the spec: \<^verbatim>\<open>Bunch.__str__\<close> of \<^verbatim>\<open>nipype.interfaces.base\<close>, which is
  not part of the module. The spec asks of it a canonical serialisation of the full
  input mapping that does not depend on the order in which the entries were set; the
  keys are sorted and each is rendered with the value bound to it. The rendering of a
  value is a parameter.
\<close>

fun str_join :: "string \<Rightarrow> string list \<Rightarrow> string" where
  "str_join sep [] = []"
| "str_join sep [x] = x"
| "str_join sep (x # y # zs) = x @ sep @ str_join sep (y # zs)"

definition bunch_repr :: "(pyval \<Rightarrow> string) \<Rightarrow> bunch \<Rightarrow> string" where
  "bunch_repr render b =
     ''Bunch('' @
     str_join '', '' (map (\<lambda>k. k @ ''='' @ render (the (map_of b k))) (sort (map fst b))) @
     '')''"

section \<open>Input isolation in an object store\<close>

text \<open>
  Where a claim depends on who can reach a list object, values live in a store: a value
  is an immutable atom or a reference to a list object, and the store holds the elements
  of each list object at its address. A new object is put at the end of the store.
\<close>

datatype atom = ANone | ABool bool | AInt int | AStr string

datatype sval = Atom atom | Ref nat

type_synonym store = "sval list list"

text \<open>
  The value a reference stands for, read down to the atoms. The first argument bounds
  the depth: the reading of a dangling reference, or of a value nested deeper than the
  bound (a cyclic one is), is \<open>None\<close>.
\<close>

fun atom_value :: "atom \<Rightarrow> pyval" where
  "atom_value ANone = PNone"
| "atom_value (ABool b) = PBool b"
| "atom_value (AInt i) = PInt i"
| "atom_value (AStr x) = PStr x"

fun deref :: "nat \<Rightarrow> store \<Rightarrow> sval \<Rightarrow> pyval option"
  and deref_list :: "nat \<Rightarrow> store \<Rightarrow> sval list \<Rightarrow> pyval list option" where
  "deref d st (Atom a) = Some (atom_value a)"
| "deref 0 st (Ref a) = None"
| "deref (Suc d) st (Ref a) =
     (if a < length st
      then (case deref_list d st (st ! a) of None \<Rightarrow> None | Some vs \<Rightarrow> Some (PList vs))
      else None)"
| "deref_list d st [] = Some []"
| "deref_list d st (x # xs) =
     (case deref d st x of
        None \<Rightarrow> None
      | Some v \<Rightarrow> (case deref_list d st xs of None \<Rightarrow> None | Some vs \<Rightarrow> Some (v # vs)))"

text \<open>
  \<^verbatim>\<open>copy.deepcopy\<close>: an atom is returned as it is; for a list, each element is copied
  in turn and the copies are put into a new list object
  (\<^verbatim>\<open>y = []; for a in x: y.append(deepcopy(a))\<close>). The library's memo of objects
  already copied is left out, so an object reached twice is copied twice, and the copy
  of a value nested deeper than the bound (a cyclic one is) is \<open>None\<close>.
\<close>

fun deepcopy_store :: "nat \<Rightarrow> sval \<Rightarrow> store \<Rightarrow> (sval \<times> store) option"
  and deepcopy_list :: "nat \<Rightarrow> sval list \<Rightarrow> store \<Rightarrow> (sval list \<times> store) option" where
  "deepcopy_store d (Atom a) st = Some (Atom a, st)"
| "deepcopy_store 0 (Ref a) st = None"
| "deepcopy_store (Suc d) (Ref a) st =
     (if a < length st
      then (case deepcopy_list d (st ! a) st of
              None \<Rightarrow> None
            | Some (ys, st') \<Rightarrow> Some (Ref (length st'), st' @ [ys]))
      else None)"
| "deepcopy_list d [] st = Some ([], st)"
| "deepcopy_list d (x # xs) st =
     (case deepcopy_store d x st of
        None \<Rightarrow> None
      | Some (y, st') \<Rightarrow>
          (case deepcopy_list d xs st' of
             None \<Rightarrow> None
           | Some (ys, st'') \<Rightarrow> Some (y # ys, st'')))"

text \<open>
  \<^verbatim>\<open>set_input\<close> on the store. The caller passes a value of the store, or a callable
  that is run on the arguments and the store and returns one.
\<close>

record store_state =
  st_inputs :: "(string \<times> sval) list"
  st_store :: store

datatype store_arg =
    StoreLiteral sval
  | StoreCallable "sval list \<Rightarrow> store \<Rightarrow> (error + sval) \<times> store"

definition set_input_store ::
  "nat \<Rightarrow> string \<Rightarrow> store_arg \<Rightarrow> sval list \<Rightarrow> store_state \<Rightarrow> (error + unit) option \<times> store_state" where
  "set_input_store d parameter val args s =
     (case val of
        StoreCallable g \<Rightarrow>
          (case g args (st_store s) of
             (Inl e, st1) \<Rightarrow> (Some (Inl e), s\<lparr>st_store := st1\<rparr>)
           | (Inr v, st1) \<Rightarrow>
               (case deepcopy_store d v st1 of
                  None \<Rightarrow> (None, s\<lparr>st_store := st1\<rparr>)
                | Some (c, st2) \<Rightarrow>
                    (Some (Inr ()),
                     \<lparr>st_inputs = AList.update parameter c (st_inputs s), st_store = st2\<rparr>)))
      | StoreLiteral v \<Rightarrow>
          (case deepcopy_store d v (st_store s) of
             None \<Rightarrow> (None, s)
           | Some (c, st2) \<Rightarrow>
               (Some (Inr ()),
                \<lparr>st_inputs = AList.update parameter c (st_inputs s), st_store = st2\<rparr>)))"

text \<open>
  What code outside the node can do to a store later: change or add any object except
  those at the addresses from \<open>lo\<close> up to \<open>hi\<close>, which it holds no reference to.
\<close>

definition external_mutation :: "nat \<Rightarrow> nat \<Rightarrow> store \<Rightarrow> store \<Rightarrow> bool" where
  "external_mutation lo hi st st' =
     (length st \<le> length st' \<and> list_all (\<lambda>a. st' ! a = st ! a) [lo ..< hi])"

text \<open>A store has only grown: the objects it held are as they were.\<close>

definition grows :: "store \<Rightarrow> store \<Rightarrow> bool" where
  "grows st st' = (length st \<le> length st' \<and> list_all (\<lambda>a. st' ! a = st ! a) [0 ..< length st])"

section \<open>Vocabulary for the properties\<close>

text \<open>The kinds of calls in a log, and what a call on the interface ran on and returned.\<close>

fun is_execute :: "event \<Rightarrow> bool" where
  "is_execute (Execute inp r) = True"
| "is_execute ev = False"

fun is_aggregate :: "event \<Rightarrow> bool" where
  "is_aggregate (AggregateOutputs inp r) = True"
| "is_aggregate ev = False"

fun is_copyfiles :: "event \<Rightarrow> bool" where
  "is_copyfiles (Copyfiles files dest copy) = True"
| "is_copyfiles ev = False"

fun is_cleandir :: "event \<Rightarrow> bool" where
  "is_cleandir (Cleandir dir) = True"
| "is_cleandir ev = False"

fun is_write :: "event \<Rightarrow> bool" where
  "is_write (WriteFile p c) = True"
| "is_write ev = False"

fun event_inputs :: "event \<Rightarrow> bunch" where
  "event_inputs (Execute inp r) = inp"
| "event_inputs (AggregateOutputs inp r) = inp"
| "event_inputs ev = []"

fun event_outputs :: "event \<Rightarrow> bunch" where
  "event_outputs (Execute inp (Inr r)) = ir_outputs r"
| "event_outputs (AggregateOutputs inp (Inr outs)) = outs"
| "event_outputs ev = []"

text \<open>
  The number of calls one run makes on the interface: one for each element of the
  iterfield binding when there is exactly one iterfield, else one.
\<close>

definition invocations :: "'w node \<Rightarrow> nat" where
  "invocations n =
     (if length (iterfield n) = 1
      then (case bunch_get (inputs (interface n)) (hd (iterfield n)) of
              Inl e \<Rightarrow> 0
            | Inr v \<Rightarrow> length (elements v))
      else 1)"

text \<open>
  What a list of per-iteration outputs holds under one key: the values of the
  iterations that have the key, in the order of the iterations.
\<close>

definition collected :: "string \<Rightarrow> bunch list \<Rightarrow> pyval option" where
  "collected k outs =
     (case List.map_filter (\<lambda>out. map_of out k) outs of
        [] \<Rightarrow> None
      | v # vs \<Rightarrow> Some (PList (v # vs)))"

text \<open>
  A statement leaves the node as it is but for the inputs, the result and the base
  directory, and adds to the log only calls of one kind.
\<close>

definition frame :: "'w node \<Rightarrow> 'w node \<Rightarrow> bool" where
  "frame n n' =
     (class_name (interface n') = class_name (interface n) \<and>
      class_module (interface n') = class_module (interface n) \<and>
      get_input_info (interface n') = get_input_info (interface n) \<and>
      interface_run (interface n') = interface_run (interface n) \<and>
      aggregate_outputs (interface n') = aggregate_outputs (interface n) \<and>
      iterables n' = iterables n \<and>
      iterfield n' = iterfield n \<and>
      parameterization n' = parameterization n \<and>
      disk_based n' = disk_based n \<and>
      overwrite n' = overwrite n \<and>
      name n' = name n)"

definition extends :: "(event \<Rightarrow> bool) \<Rightarrow> 'w state \<Rightarrow> 'w state \<Rightarrow> bool" where
  "extends P s s' = (frame (self s) (self s') \<and> (\<exists>evs. trace s' = trace s @ evs \<and> list_all P evs))"

definition emits :: "(event \<Rightarrow> bool) \<Rightarrow> ('w state \<Rightarrow> (error + 'a) \<times> 'w state) \<Rightarrow> bool" where
  "emits P f = (\<forall>s r s'. f s = (r, s') \<longrightarrow> extends P s s')"

text \<open>A statement leaves an attribute of the node as it is.\<close>

definition preserves :: "('w node \<Rightarrow> 'b) \<Rightarrow> ('w state \<Rightarrow> (error + 'a) \<times> 'w state) \<Rightarrow> bool" where
  "preserves h f = (\<forall>s r s'. f s = (r, s') \<longrightarrow> h (self s') = h (self s))"

definition inputs_of :: "'w node \<Rightarrow> bunch" where
  "inputs_of n = inputs (interface n)"

definition binding_of :: "string \<Rightarrow> 'w node \<Rightarrow> pyval option" where
  "binding_of k n = map_of (inputs (interface n)) k"

text \<open>The list a result holds under a key, empty when there is none.\<close>

definition listed :: "pyval option \<Rightarrow> pyval list" where
  "listed b = (case b of Some (PList xs) \<Rightarrow> xs | _ \<Rightarrow> [])"

text \<open>
  What the log says of the world. The world a logged call leaves is the one the operation
  it names returns on the world it was made on, and the result logged with a call on the
  interface is the one the interface returned there. A log is faithful from a world when
  this holds of every call in it, each made on the world the one before it left.
\<close>

fun applied :: "'w os \<Rightarrow> 'w node \<Rightarrow> event \<Rightarrow> 'w \<Rightarrow> 'w" where
  "applied os n Mkdtemp w = snd (mkdtemp os w)"
| "applied os n (Mkdir d) w = snd (os_mkdir os d w)"
| "applied os n (Cleandir d) w = snd (cleandir os d w)"
| "applied os n (Copyfiles files dest copy) w = snd (copyfiles os files dest copy w)"
| "applied os n (Execute inp r) w = snd (interface_run (interface n) inp w)"
| "applied os n (AggregateOutputs inp r) w = snd (aggregate_outputs (interface n) inp w)"
| "applied os n (WriteFile p c) w = snd (write_file os p c w)"

fun returned :: "'w node \<Rightarrow> event \<Rightarrow> 'w \<Rightarrow> bool" where
  "returned n (Execute inp r) w = (r = fst (interface_run (interface n) inp w))"
| "returned n (AggregateOutputs inp r) w = (r = fst (aggregate_outputs (interface n) inp w))"
| "returned n ev w = True"

fun faithful :: "'w os \<Rightarrow> 'w node \<Rightarrow> 'w \<Rightarrow> event list \<Rightarrow> bool" where
  "faithful os n w [] = True"
| "faithful os n w (ev # evs) = (returned n ev w \<and> faithful os n (applied os n ev w) evs)"

text \<open>
  A statement changes the world by the calls it logs and by nothing else: the world it
  leaves is the world it started on with the operations of the logged calls applied in
  order, and the results in the log are those the interface returned.
\<close>

definition follows :: "'w os \<Rightarrow> 'w state \<Rightarrow> 'w state \<Rightarrow> bool" where
  "follows os s s' =
     (frame (self s) (self s') \<and>
      (\<exists>evs. trace s' = trace s @ evs \<and> faithful os (self s) (world s) evs
             \<and> world s' = fold (applied os (self s)) evs (world s)))"

definition logged :: "'w os \<Rightarrow> ('w state \<Rightarrow> (error + 'a) \<times> 'w state) \<Rightarrow> bool" where
  "logged os f = (\<forall>s r s'. f s = (r, s') \<longrightarrow> follows os s s')"

text \<open>
  The inputs of the calls one run makes on the interface: with exactly one iterfield, the
  inputs with the iterfield bound to each element of its binding in turn; else the
  inputs.
\<close>

definition call_inputs :: "'w node \<Rightarrow> bunch list" where
  "call_inputs n =
     (if length (iterfield n) = 1
      then (case bunch_get (inputs (interface n)) (hd (iterfield n)) of
              Inl e \<Rightarrow> []
            | Inr v \<Rightarrow> map (\<lambda>x. bunch_set (hd (iterfield n)) x (inputs (interface n))) (elements v))
      else [inputs (interface n)])"

text \<open>
  The outputs a \<^verbatim>\<open>Result\<close> holds after the given calls on the interface: with exactly
  one iterfield, what the calls returned merged under each key, iteration by iteration;
  else what the one call returned.
\<close>

definition result_outputs :: "'w node \<Rightarrow> event list \<Rightarrow> bunch" where
  "result_outputs n calls =
     (if length (iterfield n) = 1
      then fold (\<lambda>(j, ev). fold (merge_output j) (event_outputs ev)) (enumerate 0 calls) []
      else (case calls of [] \<Rightarrow> [] | ev # others \<Rightarrow> event_outputs ev))"

text \<open>
  The state the call \<^verbatim>\<open>cleandir(outdir)\<close> leaves, and the state the staging loop of
  the execute path leaves when it starts in a given state.
\<close>

definition cleaned :: "'w os \<Rightarrow> string \<Rightarrow> 'w state \<Rightarrow> 'w state" where
  "cleaned os outdir s =
     s\<lparr>world := snd (cleandir os outdir (world s)), trace := trace s @ [Cleandir outdir]\<rparr>"

definition staged :: "'w os \<Rightarrow> string \<Rightarrow> 'w state \<Rightarrow> 'w state" where
  "staged os outdir s =
     snd (foreach (stage_input os outdir) (get_input_info (interface (self s))) s)"

section \<open>A concrete file system and interface for evaluation\<close>

text \<open>
  The world is the list of the paths that exist. Paths are absolute, files are staged
  under their base name, and the digest is a stand-in that keeps the letters and digits
  of the string.
\<close>

definition example_stage :: "string \<Rightarrow> pyval \<Rightarrow> pyval" where
  "example_stage dir f =
     (case f of PStr p \<Rightarrow> PStr (dir @ ''/'' @ last (py_split (CHR ''/'') p)) | v \<Rightarrow> v)"

definition example_paths :: "pyval \<Rightarrow> string list" where
  "example_paths v =
     concat (map (\<lambda>f. case f of PStr p \<Rightarrow> [p] | u \<Rightarrow> [])
                 (case v of PList fs \<Rightarrow> fs | u \<Rightarrow> [u]))"

fun example_render :: "pyval \<Rightarrow> string" where
  "example_render PNone = ''None''"
| "example_render (PBool b) = (if b then ''True'' else ''False'')"
| "example_render (PInt i) = (if i = 0 then ''0'' else if i = 1 then ''1'' else ''n'')"
| "example_render (PStr x) = [CHR 0x27] @ x @ [CHR 0x27]"
| "example_render (PList vs) = ''['' @ str_join '', '' (map example_render vs) @ '']''"

definition example_os :: "string list os" where
  "example_os =
     \<lparr> mkdtemp = (\<lambda>w. (Inr ''/tmp/tmp0'', ''/tmp/tmp0'' # w)),
       os_path_abspath = (\<lambda>p. p),
       os_path_join = (\<lambda>a b. a @ ''/'' @ b),
       os_path_exists = (\<lambda>p w. List.member w p),
       os_mkdir = (\<lambda>p w. (Inr (), p # w)),
       write_file = (\<lambda>p c w. (Inr (), p # w)),
       md5_hexdigest = filter (\<lambda>c. c \<in> set ''0123456789abcdefghijklmnopqrstuvwxyz''),
       bunch_str = bunch_repr example_render,
       cleandir = (\<lambda>dir w. (Inr (), filter (\<lambda>p. take (Suc (length dir)) p \<noteq> dir @ ''/'') w)),
       filename_to_list =
         (\<lambda>v. case v of PStr p \<Rightarrow> Inr (PList [PStr p]) | PList fs \<Rightarrow> Inr (PList fs) | u \<Rightarrow> Inr PNone),
       list_to_filename =
         (\<lambda>v. case v of
                 PList fs \<Rightarrow> (case fs of
                                [] \<Rightarrow> Inl (IndexError ''list index out of range'')
                              | [f] \<Rightarrow> Inr f
                              | f # g # hs \<Rightarrow> Inr (PList fs))
               | u \<Rightarrow> Inl (TypeError ''len'')),
       copyfiles =
         (\<lambda>files dest copy w.
            case dest of
              PList ds \<Rightarrow>
                (case (files, ds) of
                   (PList fs, [PStr dir]) \<Rightarrow>
                     (Inr (PList (map (example_stage dir) fs)),
                      example_paths (PList (map (example_stage dir) fs)) @ w)
                 | u \<Rightarrow> (Inl (OtherError ''copyfiles''), w))
            | PStr newfile \<Rightarrow> (Inr (PStr newfile), newfile # w)
            | u \<Rightarrow> (Inl (OtherError ''copyfiles''), w)),
       fname_presuffix =
         (\<lambda>f newpath. case f of
                        PStr p \<Rightarrow> Inr (newpath @ ''/'' @ last (py_split (CHR ''/'') p))
                      | u \<Rightarrow> Inl (TypeError ''fname_presuffix'')) \<rparr>"

text \<open>
  An interface with one file-bearing input, \<^verbatim>\<open>infile\<close>. Its return code and its
  outputs are given as functions of its inputs.
\<close>

definition example_interface :: "bunch \<Rightarrow> (bunch \<Rightarrow> int) \<Rightarrow> (bunch \<Rightarrow> bunch) \<Rightarrow> string list interface" where
  "example_interface inp rc outs =
     \<lparr> class_name = ''Bet'',
       class_module = ''nipype.interfaces.fsl'',
       inputs = inp,
       get_input_info = [(''infile'', True)],
       interface_run =
         (\<lambda>i w. (Inr \<lparr>ir_interface = ''Bet'',
                       ir_runtime = \<lparr>returncode = rc i, stderr = ''no brain''\<rparr>,
                       ir_outputs = outs i\<rparr>, w)),
       aggregate_outputs = (\<lambda>i w. (Inr (outs i), w)) \<rparr>"

definition example_node :: "string list interface \<Rightarrow> string list \<Rightarrow> bool \<Rightarrow> string list node" where
  "example_node iface itf diskbased =
     \<lparr> interface = iface,
       result = None,
       iterables = [],
       iterfield = itf,
       parameterization = None,
       disk_based = diskbased,
       output_directory_base = (if diskbased then Some ''/work'' else None),
       overwrite = (if diskbased then Some False else None),
       name = ''bet'' \<rparr>"

definition example_state :: "string list node \<Rightarrow> string list \<Rightarrow> string list state" where
  "example_state n w = \<lparr> self = n, world = w, trace = [] \<rparr>"

text \<open>An interface without inputs that succeeds and produces no outputs.\<close>

definition example_plain_interface :: "string list interface" where
  "example_plain_interface = example_interface [] (\<lambda>i. 0) (\<lambda>i. [])"

text \<open>
  A disk-based node that fans out over the two values of \<^verbatim>\<open>frac\<close>; each run reports
  the value it used.
\<close>

definition example_fanout_interface :: "string list interface" where
  "example_fanout_interface =
     example_interface [(''infile'', PStr ''/data/a.nii''), (''frac'', PList [PInt 0, PInt 1])]
       (\<lambda>i. 0) (\<lambda>i. [(''outfile'', PStr ''out.nii''), (''used'', the (map_of i ''frac''))])"

definition example_fanout_state :: "string list state" where
  "example_fanout_state =
     example_state (example_node example_fanout_interface [''frac''] True) [''/work'']"

text \<open>The same node with a scalar \<^verbatim>\<open>frac\<close>, and with an empty list of values.\<close>

definition example_scalar_state :: "string list state" where
  "example_scalar_state =
     example_state
       (example_node
          (example_interface [(''infile'', PStr ''/data/a.nii''), (''frac'', PInt 1)]
             (\<lambda>i. 0) (\<lambda>i. [(''outfile'', PStr ''out.nii'')]))
          [''frac''] True)
       [''/work'']"

definition example_empty_fanout_state :: "string list state" where
  "example_empty_fanout_state =
     example_state
       (example_node
          (example_interface [(''infile'', PStr ''/data/a.nii''), (''frac'', PList [])]
             (\<lambda>i. 0) (\<lambda>i. [(''outfile'', PStr ''out.nii'')]))
          [''frac''] True)
       [''/work'']"

text \<open>A disk-based node whose iterfield is \<^verbatim>\<open>cwd\<close>, bound to a list of two paths.\<close>

definition example_cwd_state :: "string list state" where
  "example_cwd_state =
     example_state
       (example_node
          (example_interface
             [(''infile'', PStr ''/data/a.nii''), (''cwd'', PList [PStr ''/a'', PStr ''/b''])]
             (\<lambda>i. 0) (\<lambda>i. [(''outfile'', PStr ''out.nii'')]))
          [''cwd''] True)
       [''/work'']"

text \<open>
  Nodes whose interface fails: with return code 1 on every element of a fan-out, with
  return code -1 on every element, and with return code 1 without an iterfield.
\<close>

definition example_failing_fanout_state :: "string list state" where
  "example_failing_fanout_state =
     example_state
       (example_node
          (example_interface [(''infile'', PStr ''/data/a.nii''), (''frac'', PList [PInt 0, PInt 1])]
             (\<lambda>i. 1) (\<lambda>i. []))
          [''frac''] True)
       [''/work'']"

definition example_negative_fanout_state :: "string list state" where
  "example_negative_fanout_state =
     example_state
       (example_node
          (example_interface [(''infile'', PStr ''/data/a.nii''), (''frac'', PList [PInt 0, PInt 1])]
             (\<lambda>i. - 1) (\<lambda>i. []))
          [''frac''] True)
       [''/work'']"

definition example_failing_state :: "string list state" where
  "example_failing_state =
     example_state
       (example_node
          (example_interface [(''infile'', PStr ''/data/a.nii'')] (\<lambda>i. 1) (\<lambda>i. []))
          [] True)
       [''/work'']"

text \<open>
  A disk-based node without an iterfield; the same node, as constructed, on the file
  system its run has left, where the marker of its inputs exists; and that node with
  \<^verbatim>\<open>overwrite\<close> set.
\<close>

definition example_single_state :: "string list state" where
  "example_single_state =
     example_state
       (example_node
          (example_interface [(''infile'', PStr ''/data/a.nii'')]
             (\<lambda>i. 0) (\<lambda>i. [(''outfile'', PStr ''out.nii'')]))
          [] True)
       [''/work'']"

definition example_cached_state :: "string list state" where
  "example_cached_state =
     example_state (self example_single_state)
       (world (snd (run example_os example_single_state)))"

definition example_overwrite_state :: "string list state" where
  "example_overwrite_state =
     example_state ((self example_single_state)\<lparr>overwrite := Some True\<rparr>)
       (world (snd (run example_os example_single_state)))"

text \<open>
  A fan-out whose interface produces the output \<^verbatim>\<open>mask\<close> only for the value 1 of
  \<^verbatim>\<open>frac\<close>, the second of the two.
\<close>

definition example_uneven_state :: "string list state" where
  "example_uneven_state =
     example_state
       (example_node
          (example_interface [(''infile'', PStr ''/data/a.nii''), (''frac'', PList [PInt 0, PInt 1])]
             (\<lambda>i. 0)
             (\<lambda>i. if map_of i ''frac'' = Some (PInt 1) then [(''mask'', PStr ''mask1.nii'')] else []))
          [''frac''] False)
       []"

text \<open>Two nodes with the same inputs, set in opposite orders.\<close>

definition example_node_ab :: "string list node" where
  "example_node_ab =
     example_node (example_interface [(''a'', PInt 1), (''b'', PStr ''x'')] (\<lambda>i. 0) (\<lambda>i. []))
       [] False"

definition example_node_ba :: "string list node" where
  "example_node_ba =
     example_node (example_interface [(''b'', PStr ''x''), (''a'', PInt 1)] (\<lambda>i. 0) (\<lambda>i. []))
       [] False"

text \<open>
  A store with the caller's list \<^verbatim>\<open>[1, 2]\<close> at address 0, the same store after
  \<^verbatim>\<open>set_input\<close> has added its copy at address 1 and the caller has then overwritten
  its own list, and a callable that returns the caller's list.
\<close>

definition example_store_state :: store_state where
  "example_store_state = \<lparr>st_inputs = [], st_store = [[Atom (AInt 1), Atom (AInt 2)]]\<rparr>"

definition example_mutated_store :: store where
  "example_mutated_store = [[Atom (AInt 99)], [Atom (AInt 1), Atom (AInt 2)]]"

definition example_callable :: "sval list \<Rightarrow> store \<Rightarrow> (error + sval) \<times> store" where
  "example_callable args st = (Inr (Ref 0), st)"

section \<open>Reasoning about statements\<close>

lemma bindE_cases:
  assumes "bindE m f s = (r, s')"
  obtains (fail) e where "m s = (Inl e, s')" "r = Inl e"
        | (ok) x s1 where "m s = (Inr x, s1)" "f x s1 = (r, s')"
  using assms by (auto simp add: bindE_def split: prod.splits sum.splits)

lemma foreach_cases:
  assumes "foreach body (x # xs) s = (r, s')"
  obtains (fail) e where "body x s = (Inl e, s')" "r = Inl e"
        | (ok) s1 where "body x s = (Inr (), s1)" "foreach body xs s1 = (r, s')"
  using assms by (auto split: prod.splits sum.splits)

lemma frame_refl: "frame n n"
  by (simp add: frame_def)

lemma frame_trans: "frame n n' \<Longrightarrow> frame n' n'' \<Longrightarrow> frame n n''"
  by (simp add: frame_def)

lemma extends_refl: "extends P s s"
  by (simp add: extends_def frame_refl)

lemma extends_trans: "extends P s s' \<Longrightarrow> extends P s' s'' \<Longrightarrow> extends P s s''"
  unfolding extends_def by (auto intro: frame_trans)

lemma emitsD: "emits P f \<Longrightarrow> f s = (r, s') \<Longrightarrow> extends P s s'"
  by (simp add: emits_def)

lemma emits_bindE:
  assumes "emits P m" and "\<And>x. emits P (f x)"
  shows "emits P (bindE m f)"
  unfolding emits_def
proof (intro allI impI)
  fix s r s'
  assume "bindE m f s = (r, s')"
  then show "extends P s s'"
  proof (cases rule: bindE_cases)
    case (fail e)
    with assms(1) show ?thesis by (simp add: emits_def)
  next
    case (ok x s1)
    from assms(1) ok(1) have "extends P s s1" by (simp add: emits_def)
    moreover from assms(2) ok(2) have "extends P s1 s'" by (simp add: emits_def)
    ultimately show ?thesis by (rule extends_trans)
  qed
qed

lemma emits_foreach: "(\<And>x. emits P (body x)) \<Longrightarrow> emits P (foreach body xs)"
proof (induction xs)
  case Nil
  show ?case by (simp add: emits_def extends_refl)
next
  case (Cons x xs)
  show ?case
    unfolding emits_def
  proof (intro allI impI)
    fix s r s'
    assume "foreach body (x # xs) s = (r, s')"
    then show "extends P s s'"
    proof (cases rule: foreach_cases)
      case (fail e)
      with Cons.prems show ?thesis by (auto dest: emitsD)
    next
      case (ok s1)
      with Cons show ?thesis by (blast intro: extends_trans dest: emitsD)
    qed
  qed
qed

lemma tryE_cases:
  assumes "tryE m h s = (r, s')"
  obtains (caught) e s1 where "m s = (Inl e, s1)" "h e s1 = (r, s')"
        | (ok) x where "m s = (Inr x, s')" "r = Inr x"
  using assms by (auto simp add: tryE_def split: prod.splits sum.splits)

lemma emits_tryE:
  assumes "emits P m" and "\<And>e. emits P (h e)"
  shows "emits P (tryE m h)"
  unfolding emits_def
proof (intro allI impI)
  fix s r s'
  assume "tryE m h s = (r, s')"
  then show "extends P s s'"
  proof (cases rule: tryE_cases)
    case (caught e s1)
    from assms(1) caught(1) have "extends P s s1" by (simp add: emits_def)
    moreover from assms(2) caught(2) have "extends P s1 s'" by (simp add: emits_def)
    ultimately show ?thesis by (rule extends_trans)
  next
    case (ok x)
    with assms(1) show ?thesis by (simp add: emits_def)
  qed
qed

lemma emits_returnE: "emits P (returnE x)"
  by (simp add: emits_def returnE_def extends_refl)

lemma emits_raiseE: "emits P (raiseE e)"
  by (simp add: emits_def raiseE_def extends_refl)

lemma emits_liftE: "emits P (liftE x)"
  by (simp add: emits_def liftE_def extends_refl)

lemma emits_get_self: "emits P get_self"
  by (simp add: emits_def get_self_def extends_refl)

lemma emits_get_world: "emits P get_world"
  by (simp add: emits_def get_world_def extends_refl)

lemma emits_get_input: "emits P (get_input k)"
  by (simp add: emits_def get_input_def extends_refl)

lemma emits_put_input: "emits P (put_input k v)"
  by (auto simp add: emits_def put_input_def extends_def frame_def)

lemma emits_put_output_directory_base: "emits P (put_output_directory_base d)"
  by (auto simp add: emits_def put_output_directory_base_def extends_def frame_def)

lemma emits_get_result: "emits P get_result"
  by (auto simp add: emits_def get_result_def extends_refl split: option.splits)

lemma emits_put_result: "emits P (put_result x)"
  by (auto simp add: emits_def put_result_def extends_def frame_def)

lemma emits_set_input: "emits P (set_input k a args)"
  by (cases a) (auto simp add: set_input_def intro!: emits_bindE emits_liftE emits_put_input)

lemma emits_call: "P ev \<Longrightarrow> emits P (call operation ev)"
  by (auto simp add: emits_def call_def extends_def frame_def split: prod.splits)

lemma emits_call_run: "(\<And>i r. P (Execute i r)) \<Longrightarrow> emits P call_run"
  by (auto simp add: emits_def call_run_def Let_def extends_def frame_def split: prod.splits)

lemma emits_call_aggregate_outputs:
  "(\<And>i r. P (AggregateOutputs i r)) \<Longrightarrow> emits P call_aggregate_outputs"
  by (auto simp add: emits_def call_aggregate_outputs_def Let_def extends_def frame_def
           split: prod.splits)

lemmas emits_basic = emits_returnE emits_raiseE emits_liftE emits_get_self emits_get_world
  emits_get_input emits_put_input emits_put_output_directory_base emits_get_result
  emits_put_result emits_set_input

lemma emits_merge_step: "emits P (merge_step i kv)"
  unfolding merge_step_def by (intro emits_bindE emits_basic)

lemma emits_if:
  "(c \<Longrightarrow> emits P f) \<Longrightarrow> (\<not> c \<Longrightarrow> emits P g) \<Longrightarrow> emits P (if c then f else g)"
  by simp

lemma emits_case_prod: "(\<And>a b. emits P (f a b)) \<Longrightarrow> emits P (case p of (a, b) \<Rightarrow> f a b)"
  by (cases p) simp

lemmas emits_control = emits_bindE emits_tryE emits_foreach emits_if emits_case_prod

lemma emits_run_element:
  assumes "\<And>i r. ex \<Longrightarrow> P (Execute i r)" and "\<And>i r. \<not> ex \<Longrightarrow> P (AggregateOutputs i r)"
  shows "emits P (run_element ex f iv)"
  unfolding run_element_def
  by (intro emits_control emits_basic emits_merge_step emits_call_run
        emits_call_aggregate_outputs assms)

lemma emits_run_interface:
  assumes "\<And>i r. ex \<Longrightarrow> P (Execute i r)" and "\<And>i r. \<not> ex \<Longrightarrow> P (AggregateOutputs i r)"
  shows "emits P (run_interface ex)"
  unfolding run_interface_def
  by (intro emits_control emits_basic emits_run_element emits_call_run
        emits_call_aggregate_outputs assms)

lemma emits_stage_input:
  assumes "\<And>a b c. P (Copyfiles a b c)"
  shows "emits P (stage_input os outdir info)"
  unfolding stage_input_def
  by (intro emits_control emits_basic emits_call assms)

lemma emits_restage_file:
  assumes "\<And>a b c. P (Copyfiles a b c)"
  shows "emits P (restage_file os outdir key copy files ifile)"
  unfolding restage_file_def
  by (intro emits_control emits_basic emits_call assms conjI allI impI | split pyval.split)+

lemma emits_restage_input:
  assumes "\<And>a b c. P (Copyfiles a b c)"
  shows "emits P (restage_input os outdir info)"
  unfolding restage_input_def
  by (intro emits_control emits_basic emits_restage_file assms)

lemma emits_get_returncode: "emits P get_returncode"
  unfolding get_returncode_def
  by (intro emits_control emits_basic conjI allI impI | split slot.split)+

lemma emits_could_not_run: "emits P (could_not_run os)"
  unfolding could_not_run_def
  by (intro emits_control emits_basic conjI allI impI | split slot.split)+

lemma emits_write_marker:
  assumes "P (WriteFile hashfile inputstr)"
  shows "emits P (write_marker os hashfile inputstr)"
  unfolding write_marker_def
  by (intro emits_control emits_basic emits_call assms conjI allI impI | split error.split)+

lemma emits_skip_path:
  assumes "\<And>a b c. P (Copyfiles a b c)" and "\<And>i r. P (AggregateOutputs i r)"
  shows "emits P (skip_path os outdir)"
  unfolding skip_path_def
  by (intro emits_control emits_basic emits_restage_input emits_run_interface assms) simp

lemma emits_after_cleandir:
  assumes "\<And>a b c. P (Copyfiles a b c)" and "\<And>i r. P (Execute i r)"
    and "P (WriteFile hashfile inputstr)"
  shows "emits P (bindE get_self (\<lambda>n.
     bindE (foreach (stage_input os outdir) (get_input_info (interface n))) (\<lambda>u.
     bindE (run_interface True) (\<lambda>u.
     bindE get_returncode (\<lambda>rc.
     if rc = 0 then write_marker os hashfile inputstr else could_not_run os)))))"
  by (intro emits_control emits_basic emits_stage_input emits_run_interface
        emits_get_returncode emits_write_marker emits_could_not_run assms) simp

lemma emits_execute_path:
  assumes "P (Cleandir outdir)" and "\<And>a b c. P (Copyfiles a b c)" and "\<And>i r. P (Execute i r)"
    and "P (WriteFile hashfile inputstr)"
  shows "emits P (execute_path os outdir hashfile inputstr)"
  unfolding execute_path_def
  by (intro emits_bindE emits_call emits_after_cleandir assms)

lemma emits_prepare: "emits (\<lambda>ev. True) (prepare os)"
  unfolding prepare_def resolve_outdir_def output_directory_def make_output_dir_def
  by (intro emits_control emits_basic emits_call conjI allI impI TrueI | split option.split)+

text \<open>The log is faithful to the world.\<close>

lemma applied_frame: "frame n n' \<Longrightarrow> applied os n' ev w = applied os n ev w"
  by (cases ev) (simp_all add: frame_def)

lemma returned_frame: "frame n n' \<Longrightarrow> returned n' ev w = returned n ev w"
  by (cases ev) (simp_all add: frame_def)

lemma faithful_frame: "frame n n' \<Longrightarrow> faithful os n' w evs = faithful os n w evs"
  by (induction evs arbitrary: w) (simp_all add: applied_frame returned_frame)

lemma fold_applied_frame:
  "frame n n' \<Longrightarrow> fold (applied os n') evs w = fold (applied os n) evs w"
  by (induction evs arbitrary: w) (simp_all add: applied_frame)

lemma faithful_append:
  "faithful os n w (a @ b) = (faithful os n w a \<and> faithful os n (fold (applied os n) a w) b)"
  by (induction a arbitrary: w) simp_all

lemma follows_refl: "follows os s s"
  by (simp add: follows_def frame_refl)

lemma follows_trans:
  assumes "follows os s s'" and "follows os s' s''"
  shows "follows os s s''"
proof -
  from assms(1) obtain a where f1: "frame (self s) (self s')" and
    a: "trace s' = trace s @ a" "faithful os (self s) (world s) a"
       "world s' = fold (applied os (self s)) a (world s)"
    by (auto simp add: follows_def)
  from assms(2) obtain b where f2: "frame (self s') (self s'')" and
    b: "trace s'' = trace s' @ b" "faithful os (self s') (world s') b"
       "world s'' = fold (applied os (self s')) b (world s')"
    by (auto simp add: follows_def)
  from f1 f2 have "frame (self s) (self s'')" by (rule frame_trans)
  moreover have "trace s'' = trace s @ (a @ b)" using a(1) b(1) by simp
  moreover have "faithful os (self s) (world s) (a @ b)"
    using a(2,3) b(2) by (simp add: faithful_append faithful_frame [OF f1])
  moreover have "world s'' = fold (applied os (self s)) (a @ b) (world s)"
    using a(3) b(3) by (simp add: fold_applied_frame [OF f1])
  ultimately show ?thesis unfolding follows_def by blast
qed

lemma loggedD: "logged os f \<Longrightarrow> f s = (r, s') \<Longrightarrow> follows os s s'"
  by (simp add: logged_def)

lemma logged_bindE:
  assumes "logged os m" and "\<And>x. logged os (f x)"
  shows "logged os (bindE m f)"
  unfolding logged_def
proof (intro allI impI)
  fix s r s'
  assume "bindE m f s = (r, s')"
  then show "follows os s s'"
  proof (cases rule: bindE_cases)
    case (fail e)
    with assms(1) show ?thesis by (simp add: logged_def)
  next
    case (ok x s1)
    from assms(1) ok(1) have "follows os s s1" by (simp add: logged_def)
    moreover from assms(2) ok(2) have "follows os s1 s'" by (simp add: logged_def)
    ultimately show ?thesis by (rule follows_trans)
  qed
qed

lemma logged_tryE:
  assumes "logged os m" and "\<And>e. logged os (h e)"
  shows "logged os (tryE m h)"
  unfolding logged_def
proof (intro allI impI)
  fix s r s'
  assume "tryE m h s = (r, s')"
  then show "follows os s s'"
  proof (cases rule: tryE_cases)
    case (caught e s1)
    from assms(1) caught(1) have "follows os s s1" by (simp add: logged_def)
    moreover from assms(2) caught(2) have "follows os s1 s'" by (simp add: logged_def)
    ultimately show ?thesis by (rule follows_trans)
  next
    case (ok x)
    with assms(1) show ?thesis by (simp add: logged_def)
  qed
qed

lemma logged_foreach: "(\<And>x. logged os (body x)) \<Longrightarrow> logged os (foreach body xs)"
proof (induction xs)
  case Nil
  show ?case by (simp add: logged_def follows_refl)
next
  case (Cons x xs)
  show ?case
    unfolding logged_def
  proof (intro allI impI)
    fix s r s'
    assume "foreach body (x # xs) s = (r, s')"
    then show "follows os s s'"
    proof (cases rule: foreach_cases)
      case (fail e)
      with Cons.prems show ?thesis by (auto dest: loggedD)
    next
      case (ok s1)
      with Cons show ?thesis by (blast intro: follows_trans dest: loggedD)
    qed
  qed
qed

lemma logged_if:
  "(c \<Longrightarrow> logged os f) \<Longrightarrow> (\<not> c \<Longrightarrow> logged os g) \<Longrightarrow> logged os (if c then f else g)"
  by simp

lemma logged_case_prod: "(\<And>a b. logged os (f a b)) \<Longrightarrow> logged os (case p of (a, b) \<Rightarrow> f a b)"
  by (cases p) simp

lemmas logged_control = logged_bindE logged_tryE logged_foreach logged_if logged_case_prod

lemma logged_returnE: "logged os (returnE x)"
  by (simp add: logged_def returnE_def follows_refl)

lemma logged_raiseE: "logged os (raiseE e)"
  by (simp add: logged_def raiseE_def follows_refl)

lemma logged_liftE: "logged os (liftE x)"
  by (simp add: logged_def liftE_def follows_refl)

lemma logged_get_self: "logged os get_self"
  by (simp add: logged_def get_self_def follows_refl)

lemma logged_get_world: "logged os get_world"
  by (simp add: logged_def get_world_def follows_refl)

lemma logged_get_input: "logged os (get_input k)"
  by (simp add: logged_def get_input_def follows_refl)

lemma logged_put_input: "logged os (put_input k v)"
  by (simp add: logged_def put_input_def follows_def frame_def)

lemma logged_get_result: "logged os get_result"
  by (auto simp add: logged_def get_result_def follows_refl split: option.splits)

lemma logged_put_result: "logged os (put_result x)"
  by (simp add: logged_def put_result_def follows_def frame_def)

lemma logged_set_input: "logged os (set_input k a args)"
  by (cases a) (auto simp add: set_input_def intro!: logged_bindE logged_liftE logged_put_input)

lemma logged_call:
  assumes "\<And>(n :: 'w node) w. applied os n ev w = snd (operation w)"
    and "\<And>(n :: 'w node) w. returned n ev w"
  shows "logged os (call operation ev)"
  using assms
  by (auto simp add: logged_def call_def follows_def frame_refl split: prod.splits)

lemma logged_call_run: "logged os call_run"
  by (auto simp add: logged_def call_run_def Let_def follows_def frame_refl split: prod.splits)

lemma logged_call_aggregate_outputs: "logged os call_aggregate_outputs"
  by (auto simp add: logged_def call_aggregate_outputs_def Let_def follows_def frame_refl
           split: prod.splits)

lemmas logged_basic = logged_returnE logged_raiseE logged_liftE logged_get_self logged_get_world
  logged_get_input logged_put_input logged_get_result logged_put_result logged_set_input
  logged_call_run logged_call_aggregate_outputs

lemma logged_merge_step: "logged os (merge_step i kv)"
  unfolding merge_step_def by (intro logged_bindE logged_basic)

lemma logged_run_element: "logged os (run_element ex f iv)"
  unfolding run_element_def
  by (intro logged_control logged_basic logged_merge_step)

lemma logged_run_interface: "logged os (run_interface ex)"
  unfolding run_interface_def
  by (intro logged_control logged_basic logged_run_element)

lemma logged_stage_input: "logged os (stage_input os outdir info)"
  unfolding stage_input_def
  by (intro logged_control logged_basic logged_call) simp_all

lemma logged_restage_file: "logged os (restage_file os outdir key copy files ifile)"
  unfolding restage_file_def
  by (intro logged_control logged_basic logged_call conjI allI impI | split pyval.split
      | simp)+

lemma logged_restage_input: "logged os (restage_input os outdir info)"
  unfolding restage_input_def
  by (intro logged_control logged_basic logged_restage_file)

lemma logged_get_returncode: "logged os get_returncode"
  unfolding get_returncode_def
  by (intro logged_control logged_basic conjI allI impI | split slot.split)+

lemma logged_could_not_run: "logged os (could_not_run os)"
  unfolding could_not_run_def
  by (intro logged_control logged_basic conjI allI impI | split slot.split)+

lemma logged_write_marker: "logged os (write_marker os hashfile inputstr)"
  unfolding write_marker_def
  by (intro logged_control logged_basic logged_call conjI allI impI | split error.split
      | simp)+

lemma logged_skip_path: "logged os (skip_path os outdir)"
  unfolding skip_path_def
  by (intro logged_control logged_basic logged_restage_input logged_run_interface)

lemma logged_after_staging:
  "logged os (bindE (run_interface True) (\<lambda>u.
     bindE get_returncode (\<lambda>rc.
     if rc = 0 then write_marker os hashfile inputstr else could_not_run os)))"
  by (intro logged_control logged_basic logged_run_interface
        logged_get_returncode logged_write_marker logged_could_not_run)

lemma logged_execute_path: "logged os (execute_path os outdir hashfile inputstr)"
  unfolding execute_path_def
  by (intro logged_control logged_basic logged_stage_input logged_run_interface
        logged_get_returncode logged_write_marker logged_could_not_run logged_call) simp_all

lemma logged_decide: "logged os (decide os outdir)"
  using logged_execute_path [of os outdir] logged_skip_path [of os outdir]
  by (simp add: logged_def decide_def Let_def)


lemma preservesD: "preserves h f \<Longrightarrow> f s = (r, s') \<Longrightarrow> h (self s') = h (self s)"
  by (simp add: preserves_def)

lemma preserves_bindE:
  assumes "preserves h m" and "\<And>x. preserves h (f x)"
  shows "preserves h (bindE m f)"
  unfolding preserves_def
proof (intro allI impI)
  fix s r s'
  assume "bindE m f s = (r, s')"
  then show "h (self s') = h (self s)"
  proof (cases rule: bindE_cases)
    case (fail e)
    with assms(1) show ?thesis by (simp add: preserves_def)
  next
    case (ok x s1)
    from assms(1) ok(1) have "h (self s1) = h (self s)" by (simp add: preserves_def)
    moreover from assms(2) ok(2) have "h (self s') = h (self s1)" by (simp add: preserves_def)
    ultimately show ?thesis by simp
  qed
qed

lemma preserves_tryE:
  assumes "preserves h m" and "\<And>e. preserves h (handler e)"
  shows "preserves h (tryE m handler)"
  unfolding preserves_def
proof (intro allI impI)
  fix s r s'
  assume "tryE m handler s = (r, s')"
  then show "h (self s') = h (self s)"
  proof (cases rule: tryE_cases)
    case (caught e s1)
    from assms(1) caught(1) have "h (self s1) = h (self s)" by (simp add: preserves_def)
    moreover from assms(2) caught(2) have "h (self s') = h (self s1)" by (simp add: preserves_def)
    ultimately show ?thesis by simp
  next
    case (ok x)
    with assms(1) show ?thesis by (simp add: preserves_def)
  qed
qed

lemma preserves_foreach:
  assumes "\<And>x. x \<in> set xs \<Longrightarrow> preserves h (body x)"
  shows "preserves h (foreach body xs)"
  using assms
proof (induction xs)
  case Nil
  show ?case by (simp add: preserves_def)
next
  case (Cons x xs)
  have step: "preserves h (body x)" and rest: "preserves h (foreach body xs)"
    using Cons by simp_all
  show ?case
    unfolding preserves_def
  proof (intro allI impI)
    fix s r s'
    assume "foreach body (x # xs) s = (r, s')"
    then show "h (self s') = h (self s)"
    proof (cases rule: foreach_cases)
      case (fail e)
      with step show ?thesis by (simp add: preserves_def)
    next
      case (ok s1)
      from step ok(1) have "h (self s1) = h (self s)" by (simp add: preserves_def)
      moreover from rest ok(2) have "h (self s') = h (self s1)" by (simp add: preserves_def)
      ultimately show ?thesis by simp
    qed
  qed
qed

lemma preserves_if:
  "(c \<Longrightarrow> preserves h f) \<Longrightarrow> (\<not> c \<Longrightarrow> preserves h g) \<Longrightarrow> preserves h (if c then f else g)"
  by simp

lemma preserves_case_prod:
  "(\<And>a b. preserves h (f a b)) \<Longrightarrow> preserves h (case p of (a, b) \<Rightarrow> f a b)"
  by (cases p) simp

lemmas preserves_control = preserves_bindE preserves_tryE preserves_if preserves_case_prod

lemma preserves_returnE: "preserves h (returnE x)"
  by (simp add: preserves_def returnE_def)

lemma preserves_raiseE: "preserves h (raiseE e)"
  by (simp add: preserves_def raiseE_def)

lemma preserves_liftE: "preserves h (liftE x)"
  by (simp add: preserves_def liftE_def)

lemma preserves_get_self: "preserves h get_self"
  by (simp add: preserves_def get_self_def)

lemma preserves_get_world: "preserves h get_world"
  by (simp add: preserves_def get_world_def)

lemma preserves_get_input: "preserves h (get_input k)"
  by (simp add: preserves_def get_input_def)

lemma preserves_get_result: "preserves h get_result"
  by (auto simp add: preserves_def get_result_def split: option.splits)

lemma preserves_call: "preserves h (call operation ev)"
  by (auto simp add: preserves_def call_def split: prod.splits)

lemma preserves_call_run: "preserves h call_run"
  by (auto simp add: preserves_def call_run_def Let_def split: prod.splits)

lemma preserves_call_aggregate_outputs: "preserves h call_aggregate_outputs"
  by (auto simp add: preserves_def call_aggregate_outputs_def Let_def split: prod.splits)

lemmas preserves_basic = preserves_returnE preserves_raiseE preserves_liftE preserves_get_self
  preserves_get_world preserves_get_input preserves_get_result preserves_call
  preserves_call_run preserves_call_aggregate_outputs

text \<open>The inputs as a whole.\<close>

lemma inputs_put_result: "preserves inputs_of (put_result x)"
  by (simp add: preserves_def put_result_def inputs_of_def)

lemma inputs_put_output_directory_base: "preserves inputs_of (put_output_directory_base d)"
  by (simp add: preserves_def put_output_directory_base_def inputs_of_def)

lemma inputs_resolve_outdir: "preserves inputs_of (resolve_outdir os)"
  unfolding resolve_outdir_def output_directory_def make_output_dir_def
  by (intro preserves_control preserves_basic inputs_put_output_directory_base
        conjI allI impI | split option.split)+

text \<open>One binding of the inputs.\<close>

lemma binding_put_input: "k \<noteq> f \<Longrightarrow> preserves (binding_of f) (put_input k v)"
  by (simp add: preserves_def put_input_def binding_of_def bunch_set_def update_conv')

lemma binding_of_inputs: "preserves inputs_of m \<Longrightarrow> preserves (binding_of f) m"
  by (simp add: preserves_def inputs_of_def binding_of_def)

lemma binding_stage_input: "fst info \<noteq> f \<Longrightarrow> preserves (binding_of f) (stage_input os outdir info)"
  unfolding stage_input_def
  by (cases info) (auto intro!: preserves_control preserves_basic binding_put_input)

lemma binding_restage_file:
  "key \<noteq> f \<Longrightarrow> preserves (binding_of f) (restage_file os outdir key copy files ifile)"
  unfolding restage_file_def
  by (intro preserves_control preserves_basic binding_put_input conjI allI impI
      | split pyval.split | assumption)+

lemma binding_restage_input:
  "fst info \<noteq> f \<Longrightarrow> preserves (binding_of f) (restage_input os outdir info)"
  unfolding restage_input_def
  by (cases info)
     (auto intro!: preserves_control preserves_basic preserves_foreach binding_restage_file)

lemma binding_prepare: "f \<noteq> ''cwd'' \<Longrightarrow> preserves (binding_of f) (prepare os)"
  unfolding prepare_def
  by (intro preserves_control preserves_basic binding_put_input
        binding_of_inputs [OF inputs_resolve_outdir]) auto

section \<open>What one iteration and one fan-out do\<close>

lemma merge_steps:
  assumes "result (self s) = Some r"
  shows "foreach (merge_step i) outs s =
           (Inr (), s\<lparr>self := (self s)\<lparr>result :=
              Some (r\<lparr>res_outputs := fold (merge_output i) outs (res_outputs r)\<rparr>)\<rparr>\<rparr>)"
  using assms
proof (induction outs arbitrary: s r)
  case Nil
  then show ?case by simp
next
  case (Cons kv outs)
  let ?r1 = "r\<lparr>res_outputs := merge_output i kv (res_outputs r)\<rparr>"
  let ?s1 = "s\<lparr>self := (self s)\<lparr>result := Some ?r1\<rparr>\<rparr>"
  have step: "merge_step i kv s = (Inr (), ?s1)"
    using Cons.prems by (simp add: merge_step_def bindE_def get_result_def put_result_def)
  have "result (self ?s1) = Some ?r1" by simp
  from Cons.IH [OF this] step show ?case by simp
qed

lemma set_input_Literal:
  "set_input k (Literal v) args s =
     (Inr (), s\<lparr>self := (self s)\<lparr>interface :=
        (interface (self s))\<lparr>inputs := bunch_set k v (inputs (interface (self s)))\<rparr>\<rparr>\<rparr>)"
  by (simp add: set_input_def put_input_def deepcopy_def)

lemma run_element_Inr:
  assumes run: "run_element ex f (i, v) s = (Inr u, s')" and res: "result (self s) = Some r"
  shows "\<exists>ev r'. trace s' = trace s @ [ev]
           \<and> (if ex then is_execute ev else is_aggregate ev)
           \<and> event_inputs ev = bunch_set f v (inputs (interface (self s)))
           \<and> inputs (interface (self s')) = bunch_set f v (inputs (interface (self s)))
           \<and> result (self s') = Some r'
           \<and> res_outputs r' = fold (merge_output i) (event_outputs ev) (res_outputs r)"
proof -
  let ?s0 = "s\<lparr>self := (self s)\<lparr>interface :=
        (interface (self s))\<lparr>inputs := bunch_set f v (inputs (interface (self s)))\<rparr>\<rparr>\<rparr>"
  have res0: "result (self ?s0) = Some r" using res by simp
  show ?thesis
  proof (cases ex)
    case True
    obtain rr w' where cr: "interface_run (interface (self ?s0)) (inputs (interface (self ?s0))) (world ?s0) = (rr, w')"
      by (cases "interface_run (interface (self ?s0)) (inputs (interface (self ?s0))) (world ?s0)")
    let ?s1 = "?s0\<lparr>world := w', trace := trace ?s0 @ [Execute (inputs (interface (self ?s0))) rr]\<rparr>"
    have c: "call_run ?s0 = (rr, ?s1)"
      using cr by (simp add: call_run_def Let_def)
    from run True c obtain x where rr: "rr = Inr x"
      by (cases rr) (auto simp add: run_element_def set_input_Literal bindE_def)
    from run True c rr res0 obtain ri where ri: "slot_insert i (ir_interface x) (res_interface r) = Inr ri"
      by (cases "slot_insert i (ir_interface x) (res_interface r)")
         (auto simp add: run_element_def set_input_Literal bindE_def get_result_def liftE_def)
    from run True c rr res0 ri obtain rt where rt: "slot_insert i (ir_runtime x) (res_runtime r) = Inr rt"
      by (cases "slot_insert i (ir_runtime x) (res_runtime r)")
         (auto simp add: run_element_def set_input_Literal bindE_def get_result_def liftE_def
            put_result_def)
    let ?r2 = "r\<lparr>res_interface := ri, res_runtime := rt\<rparr>"
    let ?s2 = "?s1\<lparr>self := (self ?s1)\<lparr>result := Some ?r2\<rparr>\<rparr>"
    have m: "foreach (merge_step i) (ir_outputs x) ?s2 = (Inr u, s')"
      using run True c rr res0 ri rt
      by (simp add: run_element_def set_input_Literal bindE_def get_result_def liftE_def
            put_result_def returnE_def)
    have "result (self ?s2) = Some ?r2" by simp
    from merge_steps [OF this, of i "ir_outputs x"] m
    have s': "s' = ?s2\<lparr>self := (self ?s2)\<lparr>result :=
              Some (?r2\<lparr>res_outputs := fold (merge_output i) (ir_outputs x) (res_outputs ?r2)\<rparr>)\<rparr>\<rparr>"
      by simp
    show ?thesis
      apply (rule exI [of _ "Execute (inputs (interface (self ?s0))) rr"])
      apply (rule exI [of _ "?r2\<lparr>res_outputs := fold (merge_output i) (ir_outputs x) (res_outputs ?r2)\<rparr>"])
      using True rr by (simp add: s')
  next
    case False
    obtain rr w' where cr: "aggregate_outputs (interface (self ?s0)) (inputs (interface (self ?s0))) (world ?s0) = (rr, w')"
      by (cases "aggregate_outputs (interface (self ?s0)) (inputs (interface (self ?s0))) (world ?s0)")
    let ?s1 = "?s0\<lparr>world := w', trace := trace ?s0 @ [AggregateOutputs (inputs (interface (self ?s0))) rr]\<rparr>"
    have c: "call_aggregate_outputs ?s0 = (rr, ?s1)"
      using cr by (simp add: call_aggregate_outputs_def Let_def)
    from run False c obtain outs where rr: "rr = Inr outs"
      by (cases rr) (auto simp add: run_element_def set_input_Literal bindE_def)
    have m: "foreach (merge_step i) outs ?s1 = (Inr u, s')"
      using run False c rr by (simp add: run_element_def set_input_Literal bindE_def)
    have "result (self ?s1) = Some r" using res by simp
    from merge_steps [OF this, of i outs] m
    have s': "s' = ?s1\<lparr>self := (self ?s1)\<lparr>result :=
              Some (r\<lparr>res_outputs := fold (merge_output i) outs (res_outputs r)\<rparr>)\<rparr>\<rparr>"
      by simp
    show ?thesis
      apply (rule exI [of _ "AggregateOutputs (inputs (interface (self ?s0))) rr"])
      apply (rule exI [of _ "r\<lparr>res_outputs := fold (merge_output i) outs (res_outputs r)\<rparr>"])
      using False rr by (simp add: s')
  qed
qed

lemma foreach_run_element:
  assumes "foreach (run_element ex f) (enumerate i vs) s = (Inr u, s')"
    and "result (self s) = Some r"
  shows "\<exists>evs r'. trace s' = trace s @ evs \<and> length evs = length vs
           \<and> list_all (\<lambda>ev. if ex then is_execute ev else is_aggregate ev) evs
           \<and> map event_inputs evs = map (\<lambda>v. bunch_set f v (inputs (interface (self s)))) vs
           \<and> (\<forall>w. bunch_set f w (inputs (interface (self s'))) =
                    bunch_set f w (inputs (interface (self s))))
           \<and> result (self s') = Some r'
           \<and> res_outputs r' =
               fold (\<lambda>(j, ev). fold (merge_output j) (event_outputs ev)) (enumerate i evs)
                    (res_outputs r)"
  using assms
proof (induction vs arbitrary: i s r)
  case Nil
  then show ?case by simp
next
  case (Cons v vs)
  from Cons.prems(1) have "foreach (run_element ex f) ((i, v) # enumerate (Suc i) vs) s = (Inr u, s')"
    by simp
  then obtain s1 where one: "run_element ex f (i, v) s = (Inr (), s1)"
    and rest: "foreach (run_element ex f) (enumerate (Suc i) vs) s1 = (Inr u, s')"
    by (cases rule: foreach_cases) auto
  from run_element_Inr [OF one Cons.prems(2)] obtain ev r1 where
    ev: "trace s1 = trace s @ [ev]" "if ex then is_execute ev else is_aggregate ev"
        "event_inputs ev = bunch_set f v (inputs (interface (self s)))"
        "inputs (interface (self s1)) = bunch_set f v (inputs (interface (self s)))"
        "result (self s1) = Some r1"
        "res_outputs r1 = fold (merge_output i) (event_outputs ev) (res_outputs r)"
    by blast
  from Cons.IH [OF rest ev(5)] obtain evs r' where
    evs: "trace s' = trace s1 @ evs" "length evs = length vs"
         "list_all (\<lambda>ev. if ex then is_execute ev else is_aggregate ev) evs"
         "map event_inputs evs = map (\<lambda>v. bunch_set f v (inputs (interface (self s1)))) vs"
         "\<forall>w. bunch_set f w (inputs (interface (self s'))) =
              bunch_set f w (inputs (interface (self s1)))"
         "result (self s') = Some r'"
         "res_outputs r' =
            fold (\<lambda>(j, ev). fold (merge_output j) (event_outputs ev)) (enumerate (Suc i) evs)
                 (res_outputs r1)"
    by blast
  show ?case
    apply (rule exI [of _ "ev # evs"])
    apply (rule exI [of _ r'])
    using ev evs by (simp add: bunch_set_def)
qed

lemma restored_value:
  "(if \<not> is_list v then set_input f (Literal (last (elements v))) args
    else set_input f (Literal (PList (elements v))) args) = set_input f (Literal v) args"
  by (cases v) simp_all

lemma bunch_set_bound: "bunch_get b k = Inr v \<Longrightarrow> bunch_set k v b = b"
  by (auto simp add: bunch_get_def bunch_set_def update_triv split: option.splits)

lemma run_interface_fanout:
  assumes len: "length (iterfield (self s)) = 1" and run: "run_interface ex s = (Inr u, s')"
  shows "\<exists>v0 evs r'. bunch_get (inputs (interface (self s))) (hd (iterfield (self s))) = Inr v0
           \<and> trace s' = trace s @ evs \<and> length evs = length (elements v0)
           \<and> list_all (\<lambda>ev. if ex then is_execute ev else is_aggregate ev) evs
           \<and> map event_inputs evs =
               map (\<lambda>v. bunch_set (hd (iterfield (self s))) v (inputs (interface (self s))))
                   (elements v0)
           \<and> inputs (interface (self s')) = inputs (interface (self s))
           \<and> result (self s') = Some r'
           \<and> res_outputs r' =
               fold (\<lambda>(j, ev). fold (merge_output j) (event_outputs ev)) (enumerate 0 evs) []"
proof -
  let ?f = "hd (iterfield (self s))"
  from run len obtain v0 where v0: "bunch_get (inputs (interface (self s))) ?f = Inr v0"
    by (cases "bunch_get (inputs (interface (self s))) ?f")
       (auto simp add: run_interface_def bindE_def get_self_def get_input_def)
  let ?r0 = "\<lparr>res_interface = Many [], res_runtime = Many [], res_outputs = []\<rparr>"
  let ?s0 = "s\<lparr>self := (self s)\<lparr>result := Some ?r0\<rparr>\<rparr>"
  obtain rl sl where loop: "foreach (run_element ex ?f) (enumerate 0 (elements v0)) ?s0 = (rl, sl)"
    by (cases "foreach (run_element ex ?f) (enumerate 0 (elements v0)) ?s0")
  from run len v0 loop have rl: "rl = Inr ()"
    by (cases rl) (auto simp add: run_interface_def bindE_def get_self_def get_input_def
                     put_result_def)
  from run len v0 loop rl have fin: "set_input ?f (Literal v0) [] sl = (Inr u, s')"
    by (simp add: run_interface_def bindE_def get_self_def get_input_def put_result_def
          restored_value)
  have "result (self ?s0) = Some ?r0" by simp
  from foreach_run_element [OF loop [unfolded rl] this] obtain evs r' where
    evs: "trace sl = trace ?s0 @ evs" "length evs = length (elements v0)"
         "list_all (\<lambda>ev. if ex then is_execute ev else is_aggregate ev) evs"
         "map event_inputs evs =
            map (\<lambda>v. bunch_set ?f v (inputs (interface (self ?s0)))) (elements v0)"
         "\<forall>w. bunch_set ?f w (inputs (interface (self sl))) =
              bunch_set ?f w (inputs (interface (self ?s0)))"
         "result (self sl) = Some r'"
         "res_outputs r' =
            fold (\<lambda>(j, ev). fold (merge_output j) (event_outputs ev)) (enumerate 0 evs)
                 (res_outputs ?r0)"
    by blast
  from fin have s': "s' = sl\<lparr>self := (self sl)\<lparr>interface :=
        (interface (self sl))\<lparr>inputs := bunch_set ?f v0 (inputs (interface (self sl)))\<rparr>\<rparr>\<rparr>"
    by (simp add: set_input_Literal)
  have "inputs (interface (self s')) = bunch_set ?f v0 (inputs (interface (self s)))"
    using evs(5) by (simp add: s')
  also have "\<dots> = inputs (interface (self s))"
    by (rule bunch_set_bound [OF v0])
  finally have inp: "inputs (interface (self s')) = inputs (interface (self s))" .
  show ?thesis
    apply (rule exI [of _ v0])
    apply (rule exI [of _ evs])
    apply (rule exI [of _ r'])
    using v0 evs inp by (simp add: s')
qed

lemma run_interface_single:
  assumes len: "length (iterfield (self s)) \<noteq> 1" and run: "run_interface ex s = (Inr u, s')"
  shows "\<exists>ev. trace s' = trace s @ [ev] \<and> (if ex then is_execute ev else is_aggregate ev)
           \<and> inputs (interface (self s')) = inputs (interface (self s))"
  using assms
  by (cases ex)
     (auto simp add: run_interface_def bindE_def get_self_def call_run_def
        call_aggregate_outputs_def put_result_def Let_def split: prod.splits sum.splits)

lemma run_interface_calls:
  assumes run: "run_interface ex s = (Inr u, s')"
  shows "\<exists>evs. trace s' = trace s @ evs
           \<and> list_all (\<lambda>ev. if ex then is_execute ev else is_aggregate ev) evs
           \<and> length evs = invocations (self s')
           \<and> inputs (interface (self s')) = inputs (interface (self s))"
proof -
  have "emits (\<lambda>ev. True) (run_interface ex)"
    by (rule emits_run_interface) simp_all
  from emitsD [OF this run] have itf: "iterfield (self s') = iterfield (self s)"
    by (simp add: extends_def frame_def)
  show ?thesis
  proof (cases "length (iterfield (self s)) = 1")
    case True
    from run_interface_fanout [OF True run] obtain v0 evs where
      f: "bunch_get (inputs (interface (self s))) (hd (iterfield (self s))) = Inr v0"
         "trace s' = trace s @ evs" "length evs = length (elements v0)"
         "list_all (\<lambda>ev. if ex then is_execute ev else is_aggregate ev) evs"
         "inputs (interface (self s')) = inputs (interface (self s))"
      by blast
    have "invocations (self s') = length (elements v0)"
      using True itf f(1,5) by (simp add: invocations_def)
    with f show ?thesis by (intro exI [of _ evs]) simp
  next
    case False
    from run_interface_single [OF False run] obtain ev where
      f: "trace s' = trace s @ [ev]" "if ex then is_execute ev else is_aggregate ev"
         "inputs (interface (self s')) = inputs (interface (self s))"
      by blast
    have "invocations (self s') = 1"
      using False itf by (simp add: invocations_def)
    with f show ?thesis by (intro exI [of _ "[ev]"]) simp
  qed
qed

lemma run_interface_single_result:
  assumes len: "length (iterfield (self s)) \<noteq> 1" and run: "run_interface ex s = (Inr u, s')"
  shows "\<exists>ev r. trace s' = trace s @ [ev] \<and> (if ex then is_execute ev else is_aggregate ev)
           \<and> event_inputs ev = inputs (interface (self s))
           \<and> inputs (interface (self s')) = inputs (interface (self s))
           \<and> result (self s') = Some r
           \<and> res_outputs r = event_outputs ev"
  using assms
  by (cases ex)
     (auto simp add: run_interface_def bindE_def get_self_def call_run_def
        call_aggregate_outputs_def put_result_def Let_def split: prod.splits sum.splits)

lemma run_interface_result:
  assumes run: "run_interface ex s = (Inr u, s')"
  shows "\<exists>evs r. trace s' = trace s @ evs
           \<and> list_all (\<lambda>ev. if ex then is_execute ev else is_aggregate ev) evs
           \<and> length evs = invocations (self s')
           \<and> map event_inputs evs = call_inputs (self s')
           \<and> inputs (interface (self s')) = inputs (interface (self s))
           \<and> result (self s') = Some r
           \<and> res_outputs r = result_outputs (self s') evs"
proof -
  have "emits (\<lambda>ev. True) (run_interface ex)"
    by (rule emits_run_interface) simp_all
  from emitsD [OF this run] have itf: "iterfield (self s') = iterfield (self s)"
    by (simp add: extends_def frame_def)
  show ?thesis
  proof (cases "length (iterfield (self s)) = 1")
    case True
    from run_interface_fanout [OF True run] obtain v0 evs r where
      f: "bunch_get (inputs (interface (self s))) (hd (iterfield (self s))) = Inr v0"
         "trace s' = trace s @ evs" "length evs = length (elements v0)"
         "list_all (\<lambda>ev. if ex then is_execute ev else is_aggregate ev) evs"
         "map event_inputs evs =
            map (\<lambda>v. bunch_set (hd (iterfield (self s))) v (inputs (interface (self s))))
                (elements v0)"
         "inputs (interface (self s')) = inputs (interface (self s))"
         "result (self s') = Some r"
         "res_outputs r =
            fold (\<lambda>(j, ev). fold (merge_output j) (event_outputs ev)) (enumerate 0 evs) []"
      by blast
    have "invocations (self s') = length (elements v0)"
      using True itf f(1,6) by (simp add: invocations_def)
    moreover have "call_inputs (self s') = map event_inputs evs"
      using True itf f(1,5,6) by (simp add: call_inputs_def)
    moreover have "result_outputs (self s') evs = res_outputs r"
      using True itf f(8) by (simp add: result_outputs_def)
    ultimately show ?thesis
      using f by (intro exI [of _ evs] exI [of _ r]) simp
  next
    case False
    from run_interface_single_result [OF False run] obtain ev r where
      f: "trace s' = trace s @ [ev]" "if ex then is_execute ev else is_aggregate ev"
         "event_inputs ev = inputs (interface (self s))"
         "inputs (interface (self s')) = inputs (interface (self s))"
         "result (self s') = Some r" "res_outputs r = event_outputs ev"
      by blast
    have "invocations (self s') = 1"
      using False itf by (simp add: invocations_def)
    moreover have "call_inputs (self s') = [event_inputs ev]"
      using False itf f(3,4) by (simp add: call_inputs_def)
    moreover have "result_outputs (self s') [ev] = res_outputs r"
      using False itf f(6) by (simp add: result_outputs_def)
    ultimately show ?thesis
      using f by (intro exI [of _ "[ev]"] exI [of _ r]) simp
  qed
qed

lemma call_state:
  assumes "call operation ev s = (r, s')"
  shows "trace s' = trace s @ [ev]" and "self s' = self s"
  using assms by (auto simp add: call_def split: prod.splits)

lemma get_returncode_state: "get_returncode s = (r, s') \<Longrightarrow> s' = s"
  by (auto simp add: get_returncode_def bindE_def get_result_def returnE_def raiseE_def
        split: option.splits slot.splits)

lemma could_not_run_fails: "could_not_run os s = (r, s') \<Longrightarrow> isl r"
  by (auto simp add: could_not_run_def bindE_def get_self_def get_result_def raiseE_def
        split: option.splits slot.splits)

lemma write_marker_state:
  assumes "write_marker os hashfile inputstr s = (r, s')"
  shows "trace s' = trace s @ [WriteFile hashfile inputstr]" and "self s' = self s"
  using assms
  by (auto simp add: write_marker_def tryE_def call_def returnE_def raiseE_def
        split: prod.splits sum.splits error.splits)

lemma execute_path_Inr:
  assumes "execute_path os outdir hashfile inputstr s = (Inr u, s')"
  obtains sa sb sc where
    "call (cleandir os outdir) (Cleandir outdir) s = (Inr (), sa)"
    "foreach (stage_input os outdir) (get_input_info (interface (self sa))) sa = (Inr (), sb)"
    "run_interface True sb = (Inr (), sc)"
    "write_marker os hashfile inputstr sc = (Inr u, s')"
proof -
  from assms obtain x sa where a: "call (cleandir os outdir) (Cleandir outdir) s = (Inr x, sa)"
    and 1: "bindE get_self (\<lambda>n.
     bindE (foreach (stage_input os outdir) (get_input_info (interface n))) (\<lambda>u.
     bindE (run_interface True) (\<lambda>u.
     bindE get_returncode (\<lambda>rc.
     if rc = 0 then write_marker os hashfile inputstr else could_not_run os)))) sa = (Inr u, s')"
    unfolding execute_path_def by (cases rule: bindE_cases) auto
  from 1 have "bindE (foreach (stage_input os outdir) (get_input_info (interface (self sa)))) (\<lambda>u.
     bindE (run_interface True) (\<lambda>u.
     bindE get_returncode (\<lambda>rc.
     if rc = 0 then write_marker os hashfile inputstr else could_not_run os))) sa = (Inr u, s')"
    by (simp add: bindE_def get_self_def)
  then obtain y sb where b: "foreach (stage_input os outdir) (get_input_info (interface (self sa))) sa = (Inr y, sb)"
    and 2: "bindE (run_interface True) (\<lambda>u.
     bindE get_returncode (\<lambda>rc.
     if rc = 0 then write_marker os hashfile inputstr else could_not_run os)) sb = (Inr u, s')"
    by (cases rule: bindE_cases) auto
  from 2 obtain z sc where c: "run_interface True sb = (Inr z, sc)"
    and 3: "bindE get_returncode (\<lambda>rc.
     if rc = 0 then write_marker os hashfile inputstr else could_not_run os) sc = (Inr u, s')"
    by (cases rule: bindE_cases) auto
  from 3 obtain rc sd where d: "get_returncode sc = (Inr rc, sd)"
    and 4: "(if rc = 0 then write_marker os hashfile inputstr else could_not_run os) sd = (Inr u, s')"
    by (cases rule: bindE_cases) auto
  from d have sd: "sd = sc" by (rule get_returncode_state)
  from 4 have "rc = 0"
    by (cases "rc = 0") (auto dest: could_not_run_fails)
  with 4 sd have e: "write_marker os hashfile inputstr sc = (Inr u, s')" by simp
  from a b c e show ?thesis by (intro that [of sa sb sc]) auto
qed

lemma skip_path_Inr:
  assumes "skip_path os outdir s = (Inr u, s')"
  obtains sb where
    "foreach (restage_input os outdir) (get_input_info (interface (self s))) s = (Inr (), sb)"
    "run_interface False sb = (Inr u, s')"
proof -
  from assms have "bindE (foreach (restage_input os outdir) (get_input_info (interface (self s)))) (\<lambda>u.
     run_interface False) s = (Inr u, s')"
    by (simp add: skip_path_def bindE_def get_self_def)
  then obtain y sb where "foreach (restage_input os outdir) (get_input_info (interface (self s))) s = (Inr y, sb)"
    and "run_interface False sb = (Inr u, s')"
    by (cases rule: bindE_cases) auto
  then show ?thesis by (intro that [of sb]) auto
qed

lemma run_disk_based:
  assumes "disk_based (self s)" and "prepare os s = (Inr outdir, s1)"
  obtains r0 where "decide os outdir s1 = (r0, snd (run os s))" and "isl (fst (run os s)) = isl r0"
proof -
  obtain r0 s2 where d: "decide os outdir s1 = (r0, s2)" by (cases "decide os outdir s1")
  with assms have "snd (run os s) = s2" and "isl (fst (run os s)) = isl r0"
    by (cases r0; simp add: run_def bindE_def get_self_def returnE_def)+
  with d show ?thesis by (intro that [of r0]) auto
qed

lemma run_returns_result:
  assumes "disk_based (self s)" and "prepare os s = (Inr outdir, s1)"
    and "decide os outdir s1 = (Inr u, s2)"
  shows "fst (run os s) = Inr (result (self s2))"
  using assms by (simp add: run_def bindE_def get_self_def returnE_def)

lemma run_not_disk_based:
  assumes "\<not> disk_based (self s)"
  obtains r0 where "run_interface True s = (r0, snd (run os s))" and "isl (fst (run os s)) = isl r0"
proof -
  obtain r0 s2 where d: "run_interface True s = (r0, s2)" by (cases "run_interface True s")
  with assms have "snd (run os s) = s2" and "isl (fst (run os s)) = isl r0"
    by (cases r0; simp add: run_def bindE_def get_self_def returnE_def)+
  with d show ?thesis by (intro that [of r0]) auto
qed

lemma not_list_ex: "(\<not> list_ex P xs) = list_all (\<lambda>x. \<not> P x) xs"
  by (simp add: list_ex_iff list_all_iff)

section \<open>Construction: what is rejected and what is not\<close>

text \<open>
  C7. Construction without an interface fails, and so does construction of a node that
  is not disk-based with an explicit base directory; the result is the error and no
  node.
\<close>

theorem construction_errors:
  "(NodeWrapper_init None its itf db bd ow nm :: error + 'w node) =
       Inl (Exception ''Interface must be provided'')
   \<and> NodeWrapper_init (Some (iface :: 'w interface)) its itf False (Some d) ow nm =
       Inl (ValueError ''Setting base_directory requires a disk based interface'')"
  by (simp add: NodeWrapper_init_def)

theorem construction_errors_witness:
  "isl (NodeWrapper_init None [] [] True (Some ''/work'') False (Some ''bet'')
          :: error + string list node)
   \<and> isl (NodeWrapper_init (Some example_plain_interface) [] [] False (Some ''/work'') False None)"
  using construction_errors [of "[]" "[]" True "Some ''/work''" False "Some ''bet''"
                                example_plain_interface "''/work''"]
        construction_errors [of "[]" "[]" True "Some ''/work''" False None
                                example_plain_interface "''/work''"]
  by simp

text \<open>
  C3, as stated, fails: a node with the two iterfield entries \<^verbatim>\<open>a\<close> and \<^verbatim>\<open>b\<close> is
  constructed.
\<close>

theorem two_iterfields_counterexample:
  "\<not> isl (NodeWrapper_init (Some example_plain_interface) [] [''a'', ''b''] False None False None)"
  by (simp add: NodeWrapper_init_def)

text \<open>
  C3, amended. The constructor does not inspect the iterfield: whenever an interface is
  given, and a base directory only to a disk-based node, the node is constructed with
  the iterfield as given, of any length.
\<close>

theorem iterfield_not_inspected:
  assumes "db \<or> bd = None"
  shows "\<not> isl (NodeWrapper_init (Some iface) its itf db bd ow nm)
         \<and> iterfield (projr (NodeWrapper_init (Some iface) its itf db bd ow nm)) = itf"
  using assms by (auto simp add: NodeWrapper_init_def)

theorem iterfield_not_inspected_witness:
  "(True \<or> Some ''/work'' = None)
   \<and> iterfield (projr (NodeWrapper_init (Some example_plain_interface) []
                         [''a'', ''b'', ''c''] True (Some ''/work'') False None))
     = [''a'', ''b'', ''c'']"
  using iterfield_not_inspected [of True "Some ''/work''" example_plain_interface "[]"
                                    "[''a'', ''b'', ''c'']" False None]
  by simp

section \<open>The cache decision, cleaning and the marker\<close>

lemma execute_path_cleaned:
  assumes e: "execute_path os outdir hashfile inputstr s = (r0, s')"
  shows "if isl (fst (cleandir os outdir (world s))) then s' = cleaned os outdir s
         else \<exists>copies later.
                trace (staged os outdir (cleaned os outdir s)) = trace s @ Cleandir outdir # copies
                \<and> list_all is_copyfiles copies
                \<and> trace s' = trace s @ Cleandir outdir # copies @ later
                \<and> world s' = fold (applied os (self s)) later
                                (world (staged os outdir (cleaned os outdir s)))"
proof -
  let ?sa = "cleaned os outdir s"
  obtain rc w' where cl: "cleandir os outdir (world s) = (rc, w')"
    by (cases "cleandir os outdir (world s)")
  then have c: "call (cleandir os outdir) (Cleandir outdir) s = (rc, ?sa)"
    by (simp add: call_def cleaned_def)
  show ?thesis
  proof (cases rc)
    case (Inl err)
    with e c have "s' = ?sa" by (simp add: execute_path_def bindE_def)
    with Inl cl show ?thesis by simp
  next
    case (Inr x)
    have self_sa: "self ?sa = self s" by (simp add: cleaned_def)
    from Inr e c have 1: "bindE (foreach (stage_input os outdir) (get_input_info (interface (self ?sa)))) (\<lambda>u.
       bindE (run_interface True) (\<lambda>u.
       bindE get_returncode (\<lambda>rc.
       if rc = 0 then write_marker os hashfile inputstr else could_not_run os))) ?sa = (r0, s')"
      by (simp add: execute_path_def bindE_def get_self_def)
    obtain rb sb where b: "foreach (stage_input os outdir) (get_input_info (interface (self ?sa))) ?sa = (rb, sb)"
      by (cases "foreach (stage_input os outdir) (get_input_info (interface (self ?sa))) ?sa")
    then have sb: "staged os outdir ?sa = sb" by (simp add: staged_def)
    have "emits is_copyfiles (foreach (stage_input os outdir) (get_input_info (interface (self ?sa))))"
      by (intro emits_foreach emits_stage_input) simp
    from emitsD [OF this b] obtain copies where
      cp: "trace sb = trace ?sa @ copies" "list_all is_copyfiles copies"
      and fr: "frame (self ?sa) (self sb)"
      by (auto simp add: extends_def)
    have tsa: "trace ?sa = trace s @ [Cleandir outdir]" by (simp add: cleaned_def)
    have "\<exists>later. trace s' = trace sb @ later
            \<and> world s' = fold (applied os (self s)) later (world sb)"
    proof (cases rb)
      case (Inl err)
      with 1 b have "s' = sb" by (simp add: bindE_def)
      then show ?thesis by simp
    next
      case (Inr y)
      with 1 b have "bindE (run_interface True) (\<lambda>u.
         bindE get_returncode (\<lambda>rc.
         if rc = 0 then write_marker os hashfile inputstr else could_not_run os)) sb = (r0, s')"
        by (simp add: bindE_def)
      from loggedD [OF logged_after_staging this] obtain later where
        "trace s' = trace sb @ later" "world s' = fold (applied os (self sb)) later (world sb)"
        by (auto simp add: follows_def)
      with fr self_sa show ?thesis
        by (intro exI [of _ later]) (simp add: fold_applied_frame [of "self s" "self sb"])
    qed
    then obtain later where
      lt: "trace s' = trace sb @ later" "world s' = fold (applied os (self s)) later (world sb)"
      by blast
    from Inr cl cp lt tsa sb show ?thesis
      by (simp add: exI [of _ copies] exI [of _ later])
  qed
qed

text \<open>
  C8. In a disk-based run that has resolved its output directory, the directory is cleaned
  exactly on the execute path, whatever the outcome of the run. The world changes by the
  logged calls and by nothing else: the world the run leaves is the world at the decision
  with the operations of the logged calls applied in order. On the execute path the first
  of these calls is \<^verbatim>\<open>cleandir\<close> on the output directory and it is the only call of
  \<^verbatim>\<open>cleandir\<close>; when it raises, the run ends in the state it left, and otherwise the
  staging loop starts in that state, on the world \<^verbatim>\<open>cleandir\<close> returned, and the
  rest of the run goes on from the world the staging left. On the skip path
  \<^verbatim>\<open>cleandir\<close> is not among the calls.
\<close>

theorem cleandir_exactly_on_execute_path:
  assumes db: "disk_based (self s)" and prep: "prepare os s = (Inr outdir, s1)"
  shows "\<exists>evs. trace (snd (run os s)) = trace s1 @ evs
           \<and> faithful os (self s1) (world s1) evs
           \<and> world (snd (run os s)) = fold (applied os (self s1)) evs (world s1)
           \<and> (if must_execute os (hashfile_of os outdir (self s1)) s1
              then \<exists>rest. evs = Cleandir outdir # rest \<and> \<not> list_ex is_cleandir rest
                     \<and> (if isl (fst (cleandir os outdir (world s1)))
                        then snd (run os s) = cleaned os outdir s1
                        else \<exists>copies later.
                               trace (staged os outdir (cleaned os outdir s1)) =
                                 trace s1 @ Cleandir outdir # copies
                               \<and> list_all is_copyfiles copies \<and> rest = copies @ later
                               \<and> world (snd (run os s)) =
                                   fold (applied os (self s1)) later
                                     (world (staged os outdir (cleaned os outdir s1))))
              else \<not> list_ex is_cleandir evs)"
proof -
  let ?s' = "snd (run os s)"
  let ?hf = "hashfile_of os outdir (self s1)"
  let ?istr = "bunch_str os (inputs (interface (self s1)))"
  from db prep obtain r0 where d: "decide os outdir s1 = (r0, ?s')"
    by (rule run_disk_based)
  from loggedD [OF logged_decide d] obtain evs where
    evs: "trace ?s' = trace s1 @ evs" "faithful os (self s1) (world s1) evs"
         "world ?s' = fold (applied os (self s1)) evs (world s1)"
    by (auto simp add: follows_def)
  show ?thesis
  proof (cases "must_execute os ?hf s1")
    case True
    with d have e: "execute_path os outdir ?hf ?istr s1 = (r0, ?s')"
      by (simp add: decide_def Let_def)
    obtain rc sa where c: "call (cleandir os outdir) (Cleandir outdir) s1 = (rc, sa)"
      by (cases "call (cleandir os outdir) (Cleandir outdir) s1")
    have tr: "trace sa = trace s1 @ [Cleandir outdir]"
      by (rule call_state(1) [OF c])
    have "\<exists>rest. trace ?s' = trace sa @ rest \<and> list_all (\<lambda>ev. \<not> is_cleandir ev) rest"
    proof (cases rc)
      case (Inl err)
      with e c have "?s' = sa" by (simp add: execute_path_def bindE_def)
      then show ?thesis by simp
    next
      case (Inr x)
      with e c have "bindE get_self (\<lambda>n.
          bindE (foreach (stage_input os outdir) (get_input_info (interface n))) (\<lambda>u.
          bindE (run_interface True) (\<lambda>u.
          bindE get_returncode (\<lambda>rc.
          if rc = 0 then write_marker os ?hf ?istr else could_not_run os)))) sa = (r0, ?s')"
        by (simp add: execute_path_def bindE_def)
      from emitsD [OF emits_after_cleandir this, of "\<lambda>ev. \<not> is_cleandir ev"]
      show ?thesis by (auto simp add: extends_def)
    qed
    then obtain rest where
      rest: "trace ?s' = trace s1 @ Cleandir outdir # rest" "\<not> list_ex is_cleandir rest"
      using tr by (auto simp add: not_list_ex)
    with evs(1) have ev: "evs = Cleandir outdir # rest" by simp
    note cln = execute_path_cleaned [OF e]
    have "if isl (fst (cleandir os outdir (world s1)))
          then ?s' = cleaned os outdir s1
          else \<exists>copies later.
                 trace (staged os outdir (cleaned os outdir s1)) =
                   trace s1 @ Cleandir outdir # copies
                 \<and> list_all is_copyfiles copies \<and> rest = copies @ later
                 \<and> world ?s' = fold (applied os (self s1)) later
                                 (world (staged os outdir (cleaned os outdir s1)))"
    proof (cases "isl (fst (cleandir os outdir (world s1)))")
      case True
      with cln show ?thesis by simp
    next
      case False
      with cln obtain copies later where
        k: "trace (staged os outdir (cleaned os outdir s1)) = trace s1 @ Cleandir outdir # copies"
           "list_all is_copyfiles copies"
           "trace ?s' = trace s1 @ Cleandir outdir # copies @ later"
           "world ?s' = fold (applied os (self s1)) later
                          (world (staged os outdir (cleaned os outdir s1)))"
        by auto
      from k(3) rest(1) have "rest = copies @ later" by simp
      with False k show ?thesis
        by (simp add: exI [of _ copies] exI [of _ later])
    qed
    with True evs ev rest(2) show ?thesis
      by (intro exI [of _ evs]) simp
  next
    case False
    with d have e: "skip_path os outdir s1 = (r0, ?s')"
      by (simp add: decide_def Let_def)
    from emitsD [OF emits_skip_path e, of "\<lambda>ev. \<not> is_cleandir ev"] evs(1)
    have "\<not> list_ex is_cleandir evs" by (auto simp add: extends_def not_list_ex)
    with False evs show ?thesis
      by (intro exI [of _ evs]) simp
  qed
qed

theorem cleandir_exactly_on_execute_path_witness:
  "disk_based (self example_overwrite_state)
   \<and> fst (prepare example_os example_overwrite_state) = Inr ''/work/bet''
   \<and> must_execute example_os
         (hashfile_of example_os ''/work/bet'' (self (snd (prepare example_os example_overwrite_state))))
         (snd (prepare example_os example_overwrite_state))
   \<and> world (snd (prepare example_os example_overwrite_state)) =
       [''/work/bet/_0xunchcwdworkbetinfiledataanii.txt'', ''/work/bet/a.nii'',
        ''/work/bet'', ''/work'']
   \<and> world (cleaned example_os ''/work/bet'' (snd (prepare example_os example_overwrite_state))) =
       [''/work/bet'', ''/work'']
   \<and> (\<exists>evs. trace (snd (run example_os example_overwrite_state)) =
              trace (snd (prepare example_os example_overwrite_state)) @ evs
           \<and> faithful example_os (self (snd (prepare example_os example_overwrite_state)))
               (world (snd (prepare example_os example_overwrite_state))) evs
           \<and> world (snd (run example_os example_overwrite_state)) =
               fold (applied example_os (self (snd (prepare example_os example_overwrite_state))))
                 evs (world (snd (prepare example_os example_overwrite_state)))
           \<and> (if must_execute example_os
                   (hashfile_of example_os ''/work/bet''
                      (self (snd (prepare example_os example_overwrite_state))))
                   (snd (prepare example_os example_overwrite_state))
              then \<exists>rest. evs = Cleandir ''/work/bet'' # rest \<and> \<not> list_ex is_cleandir rest
                     \<and> (if isl (fst (cleandir example_os ''/work/bet''
                                      (world (snd (prepare example_os example_overwrite_state)))))
                        then snd (run example_os example_overwrite_state) =
                               cleaned example_os ''/work/bet''
                                 (snd (prepare example_os example_overwrite_state))
                        else \<exists>copies later.
                               trace (staged example_os ''/work/bet''
                                        (cleaned example_os ''/work/bet''
                                           (snd (prepare example_os example_overwrite_state)))) =
                                 trace (snd (prepare example_os example_overwrite_state))
                                   @ Cleandir ''/work/bet'' # copies
                               \<and> list_all is_copyfiles copies \<and> rest = copies @ later
                               \<and> world (snd (run example_os example_overwrite_state)) =
                                   fold (applied example_os
                                           (self (snd (prepare example_os example_overwrite_state))))
                                     later
                                     (world (staged example_os ''/work/bet''
                                        (cleaned example_os ''/work/bet''
                                           (snd (prepare example_os example_overwrite_state))))))
              else \<not> list_ex is_cleandir evs))
   \<and> disk_based (self example_cached_state)
   \<and> fst (prepare example_os example_cached_state) = Inr ''/work/bet''
   \<and> \<not> must_execute example_os
         (hashfile_of example_os ''/work/bet'' (self (snd (prepare example_os example_cached_state))))
         (snd (prepare example_os example_cached_state))
   \<and> world (snd (run example_os example_cached_state)) =
       world (snd (prepare example_os example_cached_state))
   \<and> (\<exists>evs. trace (snd (run example_os example_cached_state)) =
              trace (snd (prepare example_os example_cached_state)) @ evs
           \<and> faithful example_os (self (snd (prepare example_os example_cached_state)))
               (world (snd (prepare example_os example_cached_state))) evs
           \<and> world (snd (run example_os example_cached_state)) =
               fold (applied example_os (self (snd (prepare example_os example_cached_state))))
                 evs (world (snd (prepare example_os example_cached_state)))
           \<and> (if must_execute example_os
                   (hashfile_of example_os ''/work/bet''
                      (self (snd (prepare example_os example_cached_state))))
                   (snd (prepare example_os example_cached_state))
              then \<exists>rest. evs = Cleandir ''/work/bet'' # rest \<and> \<not> list_ex is_cleandir rest
                     \<and> (if isl (fst (cleandir example_os ''/work/bet''
                                      (world (snd (prepare example_os example_cached_state)))))
                        then snd (run example_os example_cached_state) =
                               cleaned example_os ''/work/bet''
                                 (snd (prepare example_os example_cached_state))
                        else \<exists>copies later.
                               trace (staged example_os ''/work/bet''
                                        (cleaned example_os ''/work/bet''
                                           (snd (prepare example_os example_cached_state)))) =
                                 trace (snd (prepare example_os example_cached_state))
                                   @ Cleandir ''/work/bet'' # copies
                               \<and> list_all is_copyfiles copies \<and> rest = copies @ later
                               \<and> world (snd (run example_os example_cached_state)) =
                                   fold (applied example_os
                                           (self (snd (prepare example_os example_cached_state))))
                                     later
                                     (world (staged example_os ''/work/bet''
                                        (cleaned example_os ''/work/bet''
                                           (snd (prepare example_os example_cached_state))))))
              else \<not> list_ex is_cleandir evs))"
proof -
  have db: "disk_based (self example_overwrite_state)"
    by code_simp
  have p1: "fst (prepare example_os example_overwrite_state) = Inr ''/work/bet''"
    by code_simp
  have p: "prepare example_os example_overwrite_state =
             (Inr ''/work/bet'', snd (prepare example_os example_overwrite_state))"
    using p1 by (simp add: prod_eq_iff)
  have m: "must_execute example_os
         (hashfile_of example_os ''/work/bet'' (self (snd (prepare example_os example_overwrite_state))))
         (snd (prepare example_os example_overwrite_state))"
    by code_simp
  have w0: "world (snd (prepare example_os example_overwrite_state)) =
       [''/work/bet/_0xunchcwdworkbetinfiledataanii.txt'', ''/work/bet/a.nii'',
        ''/work/bet'', ''/work'']"
    by code_simp
  have w1: "world (cleaned example_os ''/work/bet'' (snd (prepare example_os example_overwrite_state))) =
       [''/work/bet'', ''/work'']"
    by code_simp
  have db': "disk_based (self example_cached_state)"
    by code_simp
  have p1': "fst (prepare example_os example_cached_state) = Inr ''/work/bet''"
    by code_simp
  have p': "prepare example_os example_cached_state =
             (Inr ''/work/bet'', snd (prepare example_os example_cached_state))"
    using p1' by (simp add: prod_eq_iff)
  have m': "\<not> must_execute example_os
         (hashfile_of example_os ''/work/bet'' (self (snd (prepare example_os example_cached_state))))
         (snd (prepare example_os example_cached_state))"
    by code_simp
  have w': "world (snd (run example_os example_cached_state)) =
       world (snd (prepare example_os example_cached_state))"
    by code_simp
  from cleandir_exactly_on_execute_path [OF db p] cleandir_exactly_on_execute_path [OF db' p']
    db p1 m w0 w1 db' p1' m' w'
  show ?thesis
    by (intro conjI)
qed

lemma prepare_inputs:
  assumes "prepare os s = (Inr outdir, s1)"
  shows "inputs (interface (self s1)) = bunch_set ''cwd'' (PStr outdir) (inputs (interface (self s)))"
proof -
  from assms obtain x s0 where r: "resolve_outdir os s = (Inr x, s0)"
    and p: "bindE (put_input ''cwd'' (PStr x)) (\<lambda>u. returnE x) s0 = (Inr outdir, s1)"
    unfolding prepare_def by (cases rule: bindE_cases) auto
  from preservesD [OF inputs_resolve_outdir r]
  have "inputs (interface (self s0)) = inputs (interface (self s))"
    by (simp add: inputs_of_def)
  with p show ?thesis
    by (auto simp add: bindE_def put_input_def returnE_def)
qed

lemma copyfiles_not_other:
  assumes "list_all is_copyfiles evs"
  shows "filter is_execute evs = []" and "filter is_aggregate evs = []"
    and "filter is_write evs = []"
proof -
  have "is_copyfiles ev \<Longrightarrow> \<not> is_execute ev \<and> \<not> is_aggregate ev \<and> \<not> is_write ev" for ev
    by (cases ev) simp_all
  with assms show "filter is_execute evs = []" and "filter is_aggregate evs = []"
    and "filter is_write evs = []"
    by (auto simp add: filter_empty_conv list_all_iff)
qed

lemma only_execute:
  assumes "list_all is_execute evs"
  shows "filter is_execute evs = evs" and "filter is_aggregate evs = []"
    and "filter is_write evs = []"
proof -
  have "is_execute ev \<Longrightarrow> \<not> is_aggregate ev \<and> \<not> is_write ev" for ev
    by (cases ev) simp_all
  with assms show "filter is_execute evs = evs" and "filter is_aggregate evs = []"
    and "filter is_write evs = []"
    by (auto simp add: filter_empty_conv list_all_iff filter_id_conv)
qed

lemma only_aggregate:
  assumes "list_all is_aggregate evs"
  shows "filter is_aggregate evs = evs" and "filter is_execute evs = []"
proof -
  have "is_aggregate ev \<Longrightarrow> \<not> is_execute ev" for ev
    by (cases ev) simp_all
  with assms show "filter is_aggregate evs = evs" and "filter is_execute evs = []"
    by (auto simp add: filter_empty_conv list_all_iff filter_id_conv)
qed

lemma execute_path_success:
  assumes run: "execute_path os outdir hashfile inputstr s = (Inr u, s')"
  shows "\<exists>e1 e2. trace s' = trace s @ Cleandir outdir # e1 @ e2 @ [WriteFile hashfile inputstr]
           \<and> list_all is_copyfiles e1 \<and> list_all is_execute e2
           \<and> length e2 = invocations (self s')"
    and "f \<notin> fst ` set (get_input_info (interface (self s)))
           \<Longrightarrow> binding_of f (self s') = binding_of f (self s)"
proof -
  from run obtain sa sb sc where
    a: "call (cleandir os outdir) (Cleandir outdir) s = (Inr (), sa)" and
    b: "foreach (stage_input os outdir) (get_input_info (interface (self sa))) sa = (Inr (), sb)" and
    c: "run_interface True sb = (Inr (), sc)" and
    d: "write_marker os hashfile inputstr sc = (Inr u, s')"
    by (rule execute_path_Inr)
  note sa = call_state [OF a]
  have "emits is_copyfiles (foreach (stage_input os outdir) (get_input_info (interface (self sa))))"
    by (intro emits_foreach emits_stage_input) simp
  from emitsD [OF this b] obtain e1 where e1: "trace sb = trace sa @ e1" "list_all is_copyfiles e1"
    by (auto simp add: extends_def)
  from run_interface_calls [OF c] obtain e2 where
    e2: "trace sc = trace sb @ e2" "list_all is_execute e2" "length e2 = invocations (self sc)"
        "inputs (interface (self sc)) = inputs (interface (self sb))"
    by auto
  note s' = write_marker_state [OF d]
  show "\<exists>e1 e2. trace s' = trace s @ Cleandir outdir # e1 @ e2 @ [WriteFile hashfile inputstr]
           \<and> list_all is_copyfiles e1 \<and> list_all is_execute e2
           \<and> length e2 = invocations (self s')"
    using sa e1 e2 s' by (intro exI [of _ e1] exI [of _ e2]) simp
  show "binding_of f (self s') = binding_of f (self s)"
    if "f \<notin> fst ` set (get_input_info (interface (self s)))"
  proof -
    have "preserves (binding_of f)
            (foreach (stage_input os outdir) (get_input_info (interface (self sa))))"
      using that sa(2) by (intro preserves_foreach binding_stage_input) auto
    from preservesD [OF this b] have "binding_of f (self sb) = binding_of f (self sa)" .
    with sa(2) e2(4) s'(2) show ?thesis by (simp add: binding_of_def)
  qed
qed

lemma skip_path_success:
  assumes run: "skip_path os outdir s = (Inr u, s')"
  shows "\<exists>e1 e2. trace s' = trace s @ e1 @ e2
           \<and> list_all is_copyfiles e1 \<and> list_all is_aggregate e2
           \<and> length e2 = invocations (self s')"
    and "f \<notin> fst ` set (get_input_info (interface (self s)))
           \<Longrightarrow> binding_of f (self s') = binding_of f (self s)"
proof -
  from run obtain sb where
    b: "foreach (restage_input os outdir) (get_input_info (interface (self s))) s = (Inr (), sb)" and
    c: "run_interface False sb = (Inr u, s')"
    by (rule skip_path_Inr)
  have "emits is_copyfiles (foreach (restage_input os outdir) (get_input_info (interface (self s))))"
    by (intro emits_foreach emits_restage_input) simp
  from emitsD [OF this b] obtain e1 where e1: "trace sb = trace s @ e1" "list_all is_copyfiles e1"
    by (auto simp add: extends_def)
  from run_interface_calls [OF c] obtain e2 where
    e2: "trace s' = trace sb @ e2" "list_all is_aggregate e2" "length e2 = invocations (self s')"
        "inputs (interface (self s')) = inputs (interface (self sb))"
    by auto
  show "\<exists>e1 e2. trace s' = trace s @ e1 @ e2
           \<and> list_all is_copyfiles e1 \<and> list_all is_aggregate e2
           \<and> length e2 = invocations (self s')"
    using e1 e2 by (intro exI [of _ e1] exI [of _ e2]) simp
  show "binding_of f (self s') = binding_of f (self s)"
    if "f \<notin> fst ` set (get_input_info (interface (self s)))"
  proof -
    have "preserves (binding_of f)
            (foreach (restage_input os outdir) (get_input_info (interface (self s))))"
      using that by (intro preserves_foreach binding_restage_input) auto
    from preservesD [OF this b] have "binding_of f (self sb) = binding_of f (self s)" .
    with e2(4) show ?thesis by (simp add: binding_of_def)
  qed
qed

lemma execute_path_result:
  assumes run: "execute_path os outdir hashfile inputstr s = (Inr u, s')"
  shows "\<exists>e1 e2 r. trace s' = trace s @ Cleandir outdir # e1 @ e2 @ [WriteFile hashfile inputstr]
           \<and> list_all is_copyfiles e1 \<and> list_all is_execute e2
           \<and> length e2 = invocations (self s')
           \<and> map event_inputs e2 = call_inputs (self s')
           \<and> result (self s') = Some r
           \<and> res_outputs r = result_outputs (self s') e2"
proof -
  from run obtain sa sb sc where
    a: "call (cleandir os outdir) (Cleandir outdir) s = (Inr (), sa)" and
    b: "foreach (stage_input os outdir) (get_input_info (interface (self sa))) sa = (Inr (), sb)" and
    c: "run_interface True sb = (Inr (), sc)" and
    d: "write_marker os hashfile inputstr sc = (Inr u, s')"
    by (rule execute_path_Inr)
  note sa = call_state [OF a]
  have "emits is_copyfiles (foreach (stage_input os outdir) (get_input_info (interface (self sa))))"
    by (intro emits_foreach emits_stage_input) simp
  from emitsD [OF this b] obtain e1 where e1: "trace sb = trace sa @ e1" "list_all is_copyfiles e1"
    by (auto simp add: extends_def)
  from run_interface_result [OF c] obtain e2 r where
    e2: "trace sc = trace sb @ e2" "list_all is_execute e2" "length e2 = invocations (self sc)"
        "map event_inputs e2 = call_inputs (self sc)"
        "result (self sc) = Some r" "res_outputs r = result_outputs (self sc) e2"
    by auto
  note s' = write_marker_state [OF d]
  show ?thesis
    using sa e1 e2 s' by (intro exI [of _ e1] exI [of _ e2] exI [of _ r]) simp
qed

lemma skip_path_result:
  assumes run: "skip_path os outdir s = (Inr u, s')"
  shows "\<exists>e1 e2 r. trace s' = trace s @ e1 @ e2
           \<and> list_all is_copyfiles e1 \<and> list_all is_aggregate e2
           \<and> length e2 = invocations (self s')
           \<and> map event_inputs e2 = call_inputs (self s')
           \<and> result (self s') = Some r
           \<and> res_outputs r = result_outputs (self s') e2"
proof -
  from run obtain sb where
    b: "foreach (restage_input os outdir) (get_input_info (interface (self s))) s = (Inr (), sb)" and
    c: "run_interface False sb = (Inr u, s')"
    by (rule skip_path_Inr)
  have "emits is_copyfiles (foreach (restage_input os outdir) (get_input_info (interface (self s))))"
    by (intro emits_foreach emits_restage_input) simp
  from emitsD [OF this b] obtain e1 where e1: "trace sb = trace s @ e1" "list_all is_copyfiles e1"
    by (auto simp add: extends_def)
  from run_interface_result [OF c] obtain e2 r where
    e2: "trace s' = trace sb @ e2" "list_all is_aggregate e2" "length e2 = invocations (self s')"
        "map event_inputs e2 = call_inputs (self s')"
        "result (self s') = Some r" "res_outputs r = result_outputs (self s') e2"
    by auto
  show ?thesis
    using e1 e2 by (intro exI [of _ e1] exI [of _ e2] exI [of _ r]) simp
qed

text \<open>
  C10. In a disk-based run, the inputs at the decision are the inputs the run started
  with plus the \<^verbatim>\<open>cwd\<close> binding; every write the run makes is the write of the marker
  whose path is built from the hash of those inputs and whose content is their string,
  whatever staging does to the bindings afterwards; and an execute-path run that
  completes does make that write.
\<close>

theorem marker_records_prestaging_inputs:
  assumes db: "disk_based (self s)" and prep: "prepare os s = (Inr outdir, s1)"
  shows "inputs (interface (self s1)) = bunch_set ''cwd'' (PStr outdir) (inputs (interface (self s)))
       \<and> (\<exists>evs. trace (snd (run os s)) = trace s1 @ evs
            \<and> list_all (\<lambda>ev. is_write ev \<longrightarrow>
                  ev = WriteFile
                         (os_path_join os outdir
                            (''_0x'' @ md5_hexdigest os (bunch_str os (inputs (interface (self s1))))
                             @ ''.txt''))
                         (bunch_str os (inputs (interface (self s1))))) evs
            \<and> (must_execute os (hashfile_of os outdir (self s1)) s1 \<and> \<not> isl (fst (run os s))
                 \<longrightarrow> list_ex is_write evs))"
proof -
  let ?s' = "snd (run os s)"
  let ?hf = "hashfile_of os outdir (self s1)"
  let ?istr = "bunch_str os (inputs (interface (self s1)))"
  let ?P = "\<lambda>ev. is_write ev \<longrightarrow> ev = WriteFile ?hf ?istr"
  have hf: "?hf = os_path_join os outdir
                    (''_0x'' @ md5_hexdigest os (bunch_str os (inputs (interface (self s1)))) @ ''.txt'')"
    by (simp add: hashfile_of_def hash_inputs_def)
  from db prep obtain r0 where d: "decide os outdir s1 = (r0, ?s')"
    and r0: "isl (fst (run os s)) = isl r0"
    by (rule run_disk_based)
  have "\<exists>evs. trace ?s' = trace s1 @ evs \<and> list_all ?P evs
          \<and> (must_execute os ?hf s1 \<and> \<not> isl r0 \<longrightarrow> list_ex is_write evs)"
  proof (cases "must_execute os ?hf s1")
    case True
    with d have e: "execute_path os outdir ?hf ?istr s1 = (r0, ?s')"
      by (simp add: decide_def Let_def)
    from emitsD [OF emits_execute_path e, of ?P]
    obtain evs where evs: "trace ?s' = trace s1 @ evs" "list_all ?P evs"
      by (auto simp add: extends_def)
    have "list_ex is_write evs" if "\<not> isl r0"
    proof -
      from that obtain u where "r0 = Inr u" by (cases r0) auto
      with e have "execute_path os outdir ?hf ?istr s1 = (Inr u, ?s')" by simp
      from execute_path_success(1) [OF this] evs(1)
      have "WriteFile ?hf ?istr \<in> set evs" by auto
      moreover have "is_write (WriteFile ?hf ?istr)" by simp
      ultimately show ?thesis unfolding list_ex_iff by (rule rev_bexI)
    qed
    with evs show ?thesis by blast
  next
    case False
    with d have e: "skip_path os outdir s1 = (r0, ?s')"
      by (simp add: decide_def Let_def)
    from emitsD [OF emits_skip_path e, of ?P] False
    show ?thesis by (auto simp add: extends_def)
  qed
  with prepare_inputs [OF prep] r0 show ?thesis
    unfolding hf [symmetric] by simp
qed

theorem marker_records_prestaging_inputs_witness:
  "disk_based (self example_fanout_state)
   \<and> fst (prepare example_os example_fanout_state) = Inr ''/work/bet''
   \<and> inputs (interface (self (snd (prepare example_os example_fanout_state)))) =
       [(''infile'', PStr ''/data/a.nii''), (''frac'', PList [PInt 0, PInt 1]),
        (''cwd'', PStr ''/work/bet'')]
   \<and> inputs (interface (self (snd (run example_os example_fanout_state)))) =
       [(''infile'', PStr ''/work/bet/a.nii''), (''frac'', PList [PInt 0, PInt 1]),
        (''cwd'', PStr ''/work/bet'')]
   \<and> (\<exists>evs. trace (snd (run example_os example_fanout_state)) =
              trace (snd (prepare example_os example_fanout_state)) @ evs
            \<and> list_all (\<lambda>ev. is_write ev \<longrightarrow>
                  ev = WriteFile
                         (os_path_join example_os ''/work/bet''
                            (''_0x'' @ md5_hexdigest example_os (bunch_str example_os
                               (inputs (interface (self (snd (prepare example_os example_fanout_state))))))
                             @ ''.txt''))
                         (bunch_str example_os
                            (inputs (interface (self (snd (prepare example_os example_fanout_state))))))) evs
            \<and> (must_execute example_os
                   (hashfile_of example_os ''/work/bet''
                      (self (snd (prepare example_os example_fanout_state))))
                   (snd (prepare example_os example_fanout_state))
                 \<and> \<not> isl (fst (run example_os example_fanout_state))
                 \<longrightarrow> list_ex is_write evs))"
proof -
  have db: "disk_based (self example_fanout_state)"
    by code_simp
  have p1: "fst (prepare example_os example_fanout_state) = Inr ''/work/bet''"
    by code_simp
  have p: "prepare example_os example_fanout_state =
             (Inr ''/work/bet'', snd (prepare example_os example_fanout_state))"
    using p1 by (simp add: prod_eq_iff)
  have i1: "inputs (interface (self (snd (prepare example_os example_fanout_state)))) =
       [(''infile'', PStr ''/data/a.nii''), (''frac'', PList [PInt 0, PInt 1]),
        (''cwd'', PStr ''/work/bet'')]"
    by code_simp
  have i2: "inputs (interface (self (snd (run example_os example_fanout_state)))) =
       [(''infile'', PStr ''/work/bet/a.nii''), (''frac'', PList [PInt 0, PInt 1]),
        (''cwd'', PStr ''/work/bet'')]"
    by code_simp
  note c = conjunct2 [OF marker_records_prestaging_inputs [OF db p]]
  from db p1 i1 i2 c show ?thesis
    by (intro conjI)
qed

text \<open>
  C1, as stated, fails: a disk-based node that fans out over an empty list of values
  finds no marker, takes the execute path and completes, and has not called \<^verbatim>\<open>run\<close>
  of the interface once.
\<close>

theorem empty_fanout_counterexample:
  "disk_based (self example_empty_fanout_state)
   \<and> must_execute example_os
         (hashfile_of example_os ''/work/bet''
            (self (snd (prepare example_os example_empty_fanout_state))))
         (snd (prepare example_os example_empty_fanout_state))
   \<and> \<not> isl (fst (run example_os example_empty_fanout_state))
   \<and> filter is_execute (trace (snd (run example_os example_empty_fanout_state))) = []"
  by code_simp

text \<open>
  C1, amended. A disk-based run that has resolved its output directory takes the execute
  path exactly when \<^verbatim>\<open>overwrite\<close> is true or the marker file does not exist. On the
  execute path it never calls \<^verbatim>\<open>aggregate_outputs\<close>, and when it completes it has
  called \<^verbatim>\<open>run\<close> of the interface once for each element of the iterfield binding, on
  the inputs with the iterfield bound to that element (once, on the inputs, when there is
  no single iterfield; not at all for an empty list). On the skip path it never calls
  \<^verbatim>\<open>run\<close> of the interface, and when it completes it has called
  \<^verbatim>\<open>aggregate_outputs\<close> in that way instead. On either path the run returns the
  \<^verbatim>\<open>Result\<close> it has stored, and the outputs of that \<^verbatim>\<open>Result\<close> are what these calls
  returned: what the one call returned, or for a fan-out what the calls returned merged
  under each key. What the log records as returned by a call is what the interface
  returned on the world the earlier calls had left.
\<close>

theorem run_decision:
  assumes db: "disk_based (self s)" and prep: "prepare os s = (Inr outdir, s1)"
  shows "\<exists>evs. trace (snd (run os s)) = trace s1 @ evs
           \<and> faithful os (self s1) (world s1) evs
           \<and> (if must_execute os (hashfile_of os outdir (self s1)) s1
              then \<not> list_ex is_aggregate evs \<and>
                   (\<not> isl (fst (run os s)) \<longrightarrow>
                      length (filter is_execute evs) = invocations (self (snd (run os s)))
                      \<and> map event_inputs (filter is_execute evs) =
                          call_inputs (self (snd (run os s)))
                      \<and> (\<exists>r. fst (run os s) = Inr (Some r)
                             \<and> result (self (snd (run os s))) = Some r
                             \<and> res_outputs r =
                                 result_outputs (self (snd (run os s))) (filter is_execute evs)))
              else \<not> list_ex is_execute evs \<and>
                   (\<not> isl (fst (run os s)) \<longrightarrow>
                      length (filter is_aggregate evs) = invocations (self (snd (run os s)))
                      \<and> map event_inputs (filter is_aggregate evs) =
                          call_inputs (self (snd (run os s)))
                      \<and> (\<exists>r. fst (run os s) = Inr (Some r)
                             \<and> result (self (snd (run os s))) = Some r
                             \<and> res_outputs r =
                                 result_outputs (self (snd (run os s)))
                                   (filter is_aggregate evs))))"
proof -
  let ?s' = "snd (run os s)"
  let ?hf = "hashfile_of os outdir (self s1)"
  let ?istr = "bunch_str os (inputs (interface (self s1)))"
  from db prep obtain r0 where d: "decide os outdir s1 = (r0, ?s')"
    and r0: "isl (fst (run os s)) = isl r0"
    by (rule run_disk_based)
  from loggedD [OF logged_decide d] obtain evs where
    evs: "trace ?s' = trace s1 @ evs" "faithful os (self s1) (world s1) evs"
    by (auto simp add: follows_def)
  show ?thesis
  proof (cases "must_execute os ?hf s1")
    case True
    with d have e: "execute_path os outdir ?hf ?istr s1 = (r0, ?s')"
      by (simp add: decide_def Let_def)
    from emitsD [OF emits_execute_path e, of "\<lambda>ev. \<not> is_aggregate ev"] evs(1)
    have na: "\<not> list_ex is_aggregate evs"
      by (auto simp add: extends_def not_list_ex)
    have "length (filter is_execute evs) = invocations (self ?s')
          \<and> map event_inputs (filter is_execute evs) = call_inputs (self ?s')
          \<and> (\<exists>r. fst (run os s) = Inr (Some r) \<and> result (self ?s') = Some r
                 \<and> res_outputs r = result_outputs (self ?s') (filter is_execute evs))"
      if "\<not> isl r0"
    proof -
      from that obtain u where u: "r0 = Inr u" by (cases r0) auto
      with e have "execute_path os outdir ?hf ?istr s1 = (Inr u, ?s')" by simp
      from execute_path_result [OF this] obtain e1 e2 r where
        t: "trace ?s' = trace s1 @ Cleandir outdir # e1 @ e2 @ [WriteFile ?hf ?istr]" and
        k: "list_all is_copyfiles e1" "list_all is_execute e2"
           "length e2 = invocations (self ?s')"
           "map event_inputs e2 = call_inputs (self ?s')"
           "result (self ?s') = Some r" "res_outputs r = result_outputs (self ?s') e2"
        by blast
      from t evs(1) have "evs = Cleandir outdir # e1 @ e2 @ [WriteFile ?hf ?istr]" by simp
      with k have f: "filter is_execute evs = e2"
        by (simp add: copyfiles_not_other only_execute)
      from run_returns_result [OF db prep d [unfolded u]] k(5)
      have "fst (run os s) = Inr (Some r)" by simp
      with f k show ?thesis by simp
    qed
    with evs True r0 na show ?thesis
      by (intro exI [of _ evs]) simp
  next
    case False
    with d have e: "skip_path os outdir s1 = (r0, ?s')"
      by (simp add: decide_def Let_def)
    from emitsD [OF emits_skip_path e, of "\<lambda>ev. \<not> is_execute ev"] evs(1)
    have ne: "\<not> list_ex is_execute evs"
      by (auto simp add: extends_def not_list_ex)
    have "length (filter is_aggregate evs) = invocations (self ?s')
          \<and> map event_inputs (filter is_aggregate evs) = call_inputs (self ?s')
          \<and> (\<exists>r. fst (run os s) = Inr (Some r) \<and> result (self ?s') = Some r
                 \<and> res_outputs r = result_outputs (self ?s') (filter is_aggregate evs))"
      if "\<not> isl r0"
    proof -
      from that obtain u where u: "r0 = Inr u" by (cases r0) auto
      with e have "skip_path os outdir s1 = (Inr u, ?s')" by simp
      from skip_path_result [OF this] obtain e1 e2 r where
        t: "trace ?s' = trace s1 @ e1 @ e2" and
        k: "list_all is_copyfiles e1" "list_all is_aggregate e2"
           "length e2 = invocations (self ?s')"
           "map event_inputs e2 = call_inputs (self ?s')"
           "result (self ?s') = Some r" "res_outputs r = result_outputs (self ?s') e2"
        by blast
      from t evs(1) have "evs = e1 @ e2" by simp
      with k have f: "filter is_aggregate evs = e2"
        by (simp add: copyfiles_not_other only_aggregate)
      from run_returns_result [OF db prep d [unfolded u]] k(5)
      have "fst (run os s) = Inr (Some r)" by simp
      with f k show ?thesis by simp
    qed
    with evs False r0 ne show ?thesis
      by (intro exI [of _ evs]) simp
  qed
qed

theorem run_decision_witness:
  "disk_based (self example_fanout_state)
   \<and> fst (prepare example_os example_fanout_state) = Inr ''/work/bet''
   \<and> \<not> isl (fst (run example_os example_fanout_state))
   \<and> invocations (self (snd (run example_os example_fanout_state))) = 2
   \<and> (\<exists>evs. trace (snd (run example_os example_fanout_state)) =
              trace (snd (prepare example_os example_fanout_state)) @ evs
           \<and> faithful example_os (self (snd (prepare example_os example_fanout_state)))
               (world (snd (prepare example_os example_fanout_state))) evs
           \<and> (if must_execute example_os
                   (hashfile_of example_os ''/work/bet''
                      (self (snd (prepare example_os example_fanout_state))))
                   (snd (prepare example_os example_fanout_state))
              then \<not> list_ex is_aggregate evs \<and>
                   (\<not> isl (fst (run example_os example_fanout_state)) \<longrightarrow>
                      length (filter is_execute evs) =
                        invocations (self (snd (run example_os example_fanout_state)))
                      \<and> map event_inputs (filter is_execute evs) =
                          call_inputs (self (snd (run example_os example_fanout_state)))
                      \<and> (\<exists>r. fst (run example_os example_fanout_state) = Inr (Some r)
                             \<and> result (self (snd (run example_os example_fanout_state))) = Some r
                             \<and> res_outputs r =
                                 result_outputs (self (snd (run example_os example_fanout_state)))
                                   (filter is_execute evs)))
              else \<not> list_ex is_execute evs \<and>
                   (\<not> isl (fst (run example_os example_fanout_state)) \<longrightarrow>
                      length (filter is_aggregate evs) =
                        invocations (self (snd (run example_os example_fanout_state)))
                      \<and> map event_inputs (filter is_aggregate evs) =
                          call_inputs (self (snd (run example_os example_fanout_state)))
                      \<and> (\<exists>r. fst (run example_os example_fanout_state) = Inr (Some r)
                             \<and> result (self (snd (run example_os example_fanout_state))) = Some r
                             \<and> res_outputs r =
                                 result_outputs (self (snd (run example_os example_fanout_state)))
                                   (filter is_aggregate evs)))))
   \<and> disk_based (self example_cached_state)
   \<and> fst (prepare example_os example_cached_state) = Inr ''/work/bet''
   \<and> \<not> must_execute example_os
         (hashfile_of example_os ''/work/bet'' (self (snd (prepare example_os example_cached_state))))
         (snd (prepare example_os example_cached_state))
   \<and> fst (run example_os example_cached_state) =
       Inr (Some \<lparr>res_interface = Absent, res_runtime = Absent,
                  res_outputs = [(''outfile'', PStr ''out.nii'')]\<rparr>)
   \<and> trace (snd (run example_os example_cached_state)) =
       [AggregateOutputs
          [(''infile'', PStr ''/work/bet/a.nii''), (''cwd'', PStr ''/work/bet'')]
          (Inr [(''outfile'', PStr ''out.nii'')])]
   \<and> (\<exists>evs. trace (snd (run example_os example_cached_state)) =
              trace (snd (prepare example_os example_cached_state)) @ evs
           \<and> faithful example_os (self (snd (prepare example_os example_cached_state)))
               (world (snd (prepare example_os example_cached_state))) evs
           \<and> (if must_execute example_os
                   (hashfile_of example_os ''/work/bet''
                      (self (snd (prepare example_os example_cached_state))))
                   (snd (prepare example_os example_cached_state))
              then \<not> list_ex is_aggregate evs \<and>
                   (\<not> isl (fst (run example_os example_cached_state)) \<longrightarrow>
                      length (filter is_execute evs) =
                        invocations (self (snd (run example_os example_cached_state)))
                      \<and> map event_inputs (filter is_execute evs) =
                          call_inputs (self (snd (run example_os example_cached_state)))
                      \<and> (\<exists>r. fst (run example_os example_cached_state) = Inr (Some r)
                             \<and> result (self (snd (run example_os example_cached_state))) = Some r
                             \<and> res_outputs r =
                                 result_outputs (self (snd (run example_os example_cached_state)))
                                   (filter is_execute evs)))
              else \<not> list_ex is_execute evs \<and>
                   (\<not> isl (fst (run example_os example_cached_state)) \<longrightarrow>
                      length (filter is_aggregate evs) =
                        invocations (self (snd (run example_os example_cached_state)))
                      \<and> map event_inputs (filter is_aggregate evs) =
                          call_inputs (self (snd (run example_os example_cached_state)))
                      \<and> (\<exists>r. fst (run example_os example_cached_state) = Inr (Some r)
                             \<and> result (self (snd (run example_os example_cached_state))) = Some r
                             \<and> res_outputs r =
                                 result_outputs (self (snd (run example_os example_cached_state)))
                                   (filter is_aggregate evs)))))"
proof -
  have db: "disk_based (self example_fanout_state)"
    by code_simp
  have p1: "fst (prepare example_os example_fanout_state) = Inr ''/work/bet''"
    by code_simp
  have p: "prepare example_os example_fanout_state =
             (Inr ''/work/bet'', snd (prepare example_os example_fanout_state))"
    using p1 by (simp add: prod_eq_iff)
  have ok: "\<not> isl (fst (run example_os example_fanout_state))"
    by code_simp
  have n: "invocations (self (snd (run example_os example_fanout_state))) = 2"
    by code_simp
  have db': "disk_based (self example_cached_state)"
    by code_simp
  have p1': "fst (prepare example_os example_cached_state) = Inr ''/work/bet''"
    by code_simp
  have p': "prepare example_os example_cached_state =
             (Inr ''/work/bet'', snd (prepare example_os example_cached_state))"
    using p1' by (simp add: prod_eq_iff)
  have m': "\<not> must_execute example_os
         (hashfile_of example_os ''/work/bet'' (self (snd (prepare example_os example_cached_state))))
         (snd (prepare example_os example_cached_state))"
    by code_simp
  have r': "fst (run example_os example_cached_state) =
       Inr (Some \<lparr>res_interface = Absent, res_runtime = Absent,
                  res_outputs = [(''outfile'', PStr ''out.nii'')]\<rparr>)"
    by code_simp
  have t': "trace (snd (run example_os example_cached_state)) =
       [AggregateOutputs
          [(''infile'', PStr ''/work/bet/a.nii''), (''cwd'', PStr ''/work/bet'')]
          (Inr [(''outfile'', PStr ''out.nii'')])]"
    by code_simp
  from run_decision [OF db p] run_decision [OF db' p'] db p1 ok n db' p1' m' r' t'
  show ?thesis
    by (intro conjI)
qed

text \<open>
  C2. Where the claim and the code part: in a fan-out whose elements fail with return
  code 1 the run writes no marker and fails, but with the \<^verbatim>\<open>AttributeError\<close> of reading
  \<^verbatim>\<open>stderr\<close> off the list of runtimes, not with the message that names the node, its
  inputs and the captured stderr; the same failure without an iterfield raises that
  message. And a fan-out whose elements all return -1 completes and writes the marker,
  the largest return code being taken from 0 upwards.
\<close>

theorem fanout_failure_is_not_reported:
  "fst (run example_os example_failing_fanout_state) = Inl (AttributeError ''stderr'')
   \<and> filter is_write (trace (snd (run example_os example_failing_fanout_state))) = []
   \<and> fst (run example_os example_failing_state) =
       Inl (StandardError
             (''Could not run bet'' @ [CHR 0x0A] @ ''with inputs:'' @ [CHR 0x0A] @
              ''Bunch(cwd='' @ [CHR 0x27] @ ''/work/bet'' @ [CHR 0x27] @
              '', infile='' @ [CHR 0x27] @ ''/work/bet/a.nii'' @ [CHR 0x27] @ '')'' @
              [CHR 0x0A, CHR 0x09] @ ''stderr: no brain''))
   \<and> \<not> isl (fst (run example_os example_negative_fanout_state))
   \<and> length (filter is_write (trace (snd (run example_os example_negative_fanout_state)))) = 1"
  by code_simp

lemma bunch_get_binding:
  "binding_of f n' = binding_of f n
     \<Longrightarrow> bunch_get (inputs (interface n')) f = bunch_get (inputs (interface n)) f"
  by (simp add: binding_of_def bunch_get_def)

text \<open>
  C5, as stated, fails: a disk-based node whose iterfield is \<^verbatim>\<open>cwd\<close>, bound to a list,
  completes its run with \<^verbatim>\<open>cwd\<close> bound to a scalar, the output directory that
  \<^verbatim>\<open>run\<close> itself put there before the loop.
\<close>

theorem cwd_iterfield_counterexample:
  "iterfield (self example_cwd_state) = [''cwd'']
   \<and> bunch_get (inputs (interface (self example_cwd_state))) ''cwd'' =
       Inr (PList [PStr ''/a'', PStr ''/b''])
   \<and> \<not> isl (fst (run example_os example_cwd_state))
   \<and> bunch_get (inputs (interface (self (snd (run example_os example_cwd_state))))) ''cwd'' =
       Inr (PStr ''/work/bet'')"
  by code_simp

text \<open>
  C5, amended. For a node with an iterfield, when \<^verbatim>\<open>_run_interface\<close> completes the
  inputs are the inputs it started with: the binding of the iterfield is again the
  scalar or the full list it was when the loop began. When \<^verbatim>\<open>run\<close> completes, the
  binding of the iterfield is therefore the one \<^verbatim>\<open>run\<close> started with, unless
  \<^verbatim>\<open>run\<close> itself rewrote it before the loop: for a disk-based node the iterfield is
  to be neither \<^verbatim>\<open>cwd\<close> nor a file input that is staged.
\<close>

theorem iterfield_binding_restored:
  assumes itf: "iterfield (self s) = [f]"
  shows "(\<not> isl (fst (run_interface execute s)) \<longrightarrow>
            inputs (interface (self (snd (run_interface execute s)))) = inputs (interface (self s)))
       \<and> (\<not> isl (fst (run os s)) \<and>
            (disk_based (self s) \<longrightarrow>
               f \<noteq> ''cwd'' \<and> f \<notin> fst ` set (get_input_info (interface (self s)))) \<longrightarrow>
            bunch_get (inputs (interface (self (snd (run os s))))) f =
            bunch_get (inputs (interface (self s))) f)"
proof (intro conjI impI)
  assume ok: "\<not> isl (fst (run_interface execute s))"
  obtain r0 s' where r: "run_interface execute s = (r0, s')"
    by (cases "run_interface execute s")
  with ok obtain u where "r0 = Inr u" by (cases r0) auto
  with r run_interface_calls [of execute s u s']
  show "inputs (interface (self (snd (run_interface execute s)))) = inputs (interface (self s))"
    by auto
next
  assume "\<not> isl (fst (run os s)) \<and>
            (disk_based (self s) \<longrightarrow>
               f \<noteq> ''cwd'' \<and> f \<notin> fst ` set (get_input_info (interface (self s))))"
  then have ok: "\<not> isl (fst (run os s))"
    and fr: "disk_based (self s) \<Longrightarrow> f \<noteq> ''cwd''"
            "disk_based (self s) \<Longrightarrow> f \<notin> fst ` set (get_input_info (interface (self s)))"
    by auto
  let ?s' = "snd (run os s)"
  show "bunch_get (inputs (interface (self ?s'))) f = bunch_get (inputs (interface (self s))) f"
  proof (cases "disk_based (self s)")
    case False
    then obtain r0 where r: "run_interface True s = (r0, ?s')" and "isl (fst (run os s)) = isl r0"
      by (rule run_not_disk_based)
    with ok obtain u where "r0 = Inr u" by (cases r0) auto
    with r run_interface_calls [of True s u ?s'] show ?thesis by auto
  next
    case True
    obtain rp s1 where p: "prepare os s = (rp, s1)" by (cases "prepare os s")
    from ok True p obtain outdir where rp: "rp = Inr outdir"
      by (cases rp) (auto simp add: run_def bindE_def get_self_def)
    from preservesD [OF binding_prepare p] fr(1) [OF True]
    have b1: "binding_of f (self s1) = binding_of f (self s)" by simp
    from emitsD [OF emits_prepare p]
    have info: "get_input_info (interface (self s1)) = get_input_info (interface (self s))"
      by (simp add: extends_def frame_def)
    from True p rp obtain r0 where d: "decide os outdir s1 = (r0, ?s')"
      and "isl (fst (run os s)) = isl r0"
      by (auto elim: run_disk_based)
    with ok obtain u where r0: "r0 = Inr u" by (cases r0) auto
    from fr(2) [OF True] info
    have notin: "f \<notin> fst ` set (get_input_info (interface (self s1)))" by simp
    have "binding_of f (self ?s') = binding_of f (self s1)"
    proof (cases "must_execute os (hashfile_of os outdir (self s1)) s1")
      case True
      with d r0 have "execute_path os outdir (hashfile_of os outdir (self s1))
                        (bunch_str os (inputs (interface (self s1)))) s1 = (Inr u, ?s')"
        by (simp add: decide_def Let_def)
      from execute_path_success(2) [OF this notin] show ?thesis .
    next
      case False
      with d r0 have "skip_path os outdir s1 = (Inr u, ?s')"
        by (simp add: decide_def Let_def)
      from skip_path_success(2) [OF this notin] show ?thesis .
    qed
    with b1 show ?thesis by (intro bunch_get_binding) simp
  qed
qed

theorem iterfield_binding_restored_witness:
  "iterfield (self example_scalar_state) = [''frac'']
   \<and> \<not> isl (fst (run_interface True example_scalar_state))
   \<and> inputs (interface (self (snd (run_interface True example_scalar_state)))) =
       inputs (interface (self example_scalar_state))
   \<and> \<not> isl (fst (run example_os example_scalar_state))
   \<and> disk_based (self example_scalar_state)
   \<and> bunch_get (inputs (interface (self example_scalar_state))) ''frac'' = Inr (PInt 1)
   \<and> bunch_get (inputs (interface (self (snd (run example_os example_scalar_state))))) ''frac'' =
       bunch_get (inputs (interface (self example_scalar_state))) ''frac''"
proof -
  have itf: "iterfield (self example_scalar_state) = [''frac'']"
    by code_simp
  have ok1: "\<not> isl (fst (run_interface True example_scalar_state))"
    by code_simp
  have ok2: "\<not> isl (fst (run example_os example_scalar_state))"
    by code_simp
  have db: "disk_based (self example_scalar_state)"
    by code_simp
  have fr: "disk_based (self example_scalar_state) \<longrightarrow>
              ''frac'' \<noteq> ''cwd'' \<and>
              ''frac'' \<notin> fst ` set (get_input_info (interface (self example_scalar_state)))"
    by code_simp
  have v: "bunch_get (inputs (interface (self example_scalar_state))) ''frac'' = Inr (PInt 1)"
    by code_simp
  from iterfield_binding_restored [OF itf, of True example_os] ok1 ok2 fr
  have "inputs (interface (self (snd (run_interface True example_scalar_state)))) =
          inputs (interface (self example_scalar_state))"
    and "bunch_get (inputs (interface (self (snd (run example_os example_scalar_state))))) ''frac'' =
          bunch_get (inputs (interface (self example_scalar_state))) ''frac''"
    by blast+
  with itf ok1 ok2 db v show ?thesis
    by (intro conjI)
qed

section \<open>The outputs of a fan-out\<close>

lemma list_insert_end: "length xs \<le> i \<Longrightarrow> list_insert i x xs = xs @ [x]"
  by (simp add: list_insert_def)

lemma merge_output_map_of:
  "map_of (merge_output i (key, val) acc) k =
     (if k = key then Some (PList (list_insert i val (listed (map_of acc key))))
      else map_of acc k)"
  by (simp add: merge_output_def bunch_get_def bunch_set_def update_conv' list_insert_def listed_def
        split: option.splits pyval.splits)

lemma fold_merge_output:
  assumes "distinct (map fst outs)"
  shows "map_of (fold (merge_output i) outs acc) k =
     (case map_of outs k of
        None \<Rightarrow> map_of acc k
      | Some val \<Rightarrow> Some (PList (list_insert i val (listed (map_of acc k)))))"
  using assms
proof (induction outs arbitrary: acc)
  case Nil
  then show ?case by simp
next
  case (Cons kv outs)
  obtain key val where kv: "kv = (key, val)" by (cases kv)
  from Cons.prems kv have d: "distinct (map fst outs)" and nk: "key \<notin> fst ` set outs"
    by auto
  from nk have none: "map_of outs key = None"
    by (simp add: map_of_eq_None_iff)
  show ?case
    using Cons.IH [OF d, of "merge_output i (key, val) acc"] none
    by (auto simp add: kv merge_output_map_of split: option.splits)
qed

lemma collected_snoc:
  "collected k (prev @ [outs]) =
     (case map_of outs k of
        None \<Rightarrow> collected k prev
      | Some val \<Rightarrow> Some (PList (listed (collected k prev) @ [val])))"
  by (auto simp add: collected_def map_filter_def listed_def split: option.splits list.splits)

lemma collected_length: "length (listed (collected k prev)) \<le> length prev"
proof -
  have "length (List.map_filter (\<lambda>out. map_of out k) prev) \<le> length prev"
    by (simp add: map_filter_def)
  then show ?thesis
    by (auto simp add: collected_def listed_def split: list.splits)
qed

lemma merge_iterations:
  assumes "\<forall>k. map_of acc k = collected k prev"
    and "list_all (\<lambda>ev. distinct (map fst (event_outputs ev))) evs"
    and "length prev = i"
  shows "map_of (fold (\<lambda>(j, ev). fold (merge_output j) (event_outputs ev)) (enumerate i evs) acc) k =
           collected k (prev @ map event_outputs evs)"
  using assms
proof (induction evs arbitrary: acc prev i)
  case Nil
  then show ?case by simp
next
  case (Cons ev evs)
  let ?acc = "fold (merge_output i) (event_outputs ev) acc"
  let ?prev = "prev @ [event_outputs ev]"
  from Cons.prems(2) have d: "distinct (map fst (event_outputs ev))"
    and ds: "list_all (\<lambda>ev. distinct (map fst (event_outputs ev))) evs"
    by simp_all
  have "map_of ?acc k' = collected k' ?prev" for k'
  proof -
    have "length (listed (collected k' prev)) \<le> i"
      using collected_length [of k' prev] Cons.prems(3) by simp
    then show ?thesis
      using Cons.prems(1)
      by (simp add: fold_merge_output [OF d] collected_snoc list_insert_end split: option.splits)
  qed
  then have inv: "\<forall>k. map_of ?acc k = collected k ?prev" by simp
  have "length ?prev = Suc i" using Cons.prems(3) by simp
  from Cons.IH [OF inv ds this] show ?case by simp
qed

lemma collected_total:
  assumes "evs \<noteq> []" and "list_all (\<lambda>ev. map_of (event_outputs ev) k \<noteq> None) evs"
  shows "collected k (map event_outputs evs) =
           Some (PList (map (\<lambda>ev. the (map_of (event_outputs ev) k)) evs))"
proof -
  from assms(2) have "filter (\<lambda>out. map_of out k \<noteq> None) (map event_outputs evs) = map event_outputs evs"
    by (simp add: filter_id_conv list_all_iff)
  then have "List.map_filter (\<lambda>out. map_of out k) (map event_outputs evs) =
           map (\<lambda>ev. the (map_of (event_outputs ev) k)) evs"
    by (simp add: map_filter_def comp_def)
  with assms(1) show ?thesis
    by (cases evs) (simp_all add: collected_def)
qed

lemma bunch_get_set: "bunch_get (bunch_set k v b) k = Inr v"
  by (simp add: bunch_get_def bunch_set_def update_conv')

text \<open>
  C6, as stated, fails: in a fan-out over two values whose interface produces the output
  \<^verbatim>\<open>mask\<close> only in the second iteration, the list under \<^verbatim>\<open>mask\<close> has one element,
  and the element at position 0 is the value of iteration 1.
\<close>

theorem uneven_outputs_counterexample:
  "iterfield (self example_uneven_state) = [''frac'']
   \<and> \<not> isl (fst (run_interface True example_uneven_state))
   \<and> length (trace (snd (run_interface True example_uneven_state))) = 2
   \<and> map_of (event_outputs (trace (snd (run_interface True example_uneven_state)) ! 0)) ''mask''
       = None
   \<and> map_of (event_outputs (trace (snd (run_interface True example_uneven_state)) ! 1)) ''mask''
       = Some (PStr ''mask1.nii'')
   \<and> map_of (res_outputs (the (result (self (snd (run_interface True example_uneven_state))))))
         ''mask''
       = Some (PList [PStr ''mask1.nii''])"
  by code_simp

text \<open>
  C6, amended. When a fan-out over the \<open>n\<close> elements of the iterfield binding
  completes, it has made \<open>n\<close> calls on the interface, the \<open>i\<close>-th on the \<open>i\<close>-th
  element, and under each key the result holds the list of the values of the
  iterations that produced the key, in the order of the iterations; a key that no
  iteration produced is not in the result. When every iteration produces the key, the
  list has \<open>n\<close> elements and the \<open>i\<close>-th is the value of the \<open>i\<close>-th iteration. The
  outputs of an iteration are a dictionary: no key twice.
\<close>

theorem fanout_outputs_in_iteration_order:
  assumes itf: "iterfield (self s) = [f]"
    and ok: "\<not> isl (fst (run_interface execute s))"
    and dict: "list_all (\<lambda>ev. distinct (map fst (event_outputs ev)))
                 (drop (length (trace s)) (trace (snd (run_interface execute s))))"
  shows "\<exists>v0 evs r. bunch_get (inputs (interface (self s))) f = Inr v0
           \<and> trace (snd (run_interface execute s)) = trace s @ evs
           \<and> length evs = length (elements v0)
           \<and> (\<forall>i < length evs. bunch_get (event_inputs (evs ! i)) f = Inr (elements v0 ! i))
           \<and> result (self (snd (run_interface execute s))) = Some r
           \<and> (\<forall>k. map_of (res_outputs r) k = collected k (map event_outputs evs))
           \<and> (\<forall>k. evs \<noteq> [] \<and> list_all (\<lambda>ev. map_of (event_outputs ev) k \<noteq> None) evs \<longrightarrow>
                  map_of (res_outputs r) k =
                  Some (PList (map (\<lambda>ev. the (map_of (event_outputs ev) k)) evs)))"
proof -
  obtain r0 s' where r: "run_interface execute s = (r0, s')"
    by (cases "run_interface execute s")
  then have s': "snd (run_interface execute s) = s'" by simp
  from ok r obtain u where "r0 = Inr u" by (cases r0) auto
  with r have run: "run_interface execute s = (Inr u, s')" by simp
  from itf have len: "length (iterfield (self s)) = 1" and hd: "hd (iterfield (self s)) = f"
    by simp_all
  from run_interface_fanout [OF len run] obtain v0 evs r' where
    v0: "bunch_get (inputs (interface (self s))) f = Inr v0" and
    tr: "trace s' = trace s @ evs" and
    n: "length evs = length (elements v0)" and
    inp: "map event_inputs evs = map (\<lambda>v. bunch_set f v (inputs (interface (self s)))) (elements v0)" and
    res: "result (self s') = Some r'" and
    outs: "res_outputs r' =
             fold (\<lambda>(j, ev). fold (merge_output j) (event_outputs ev)) (enumerate 0 evs) []"
    unfolding hd by blast
  from dict tr have d: "list_all (\<lambda>ev. distinct (map fst (event_outputs ev))) evs"
    by (simp add: s')
  have c: "map_of (res_outputs r') k = collected k (map event_outputs evs)" for k
    using merge_iterations [of "[]" "[]" evs 0 k] d
    by (simp add: outs collected_def map_filter_def)
  have i: "bunch_get (event_inputs (evs ! i)) f = Inr (elements v0 ! i)" if "i < length evs" for i
  proof -
    from that have "event_inputs (evs ! i) = map event_inputs evs ! i" by simp
    also have "\<dots> = bunch_set f (elements v0 ! i) (inputs (interface (self s)))"
      using that n by (simp add: inp)
    finally show ?thesis by (simp add: bunch_get_set)
  qed
  show ?thesis
    unfolding s'
    apply (rule exI [of _ v0])
    apply (rule exI [of _ evs])
    apply (rule exI [of _ r'])
    using v0 tr n res c i by (simp add: collected_total)
qed

theorem fanout_outputs_in_iteration_order_witness:
  "iterfield (self example_fanout_state) = [''frac'']
   \<and> \<not> isl (fst (run_interface True example_fanout_state))
   \<and> list_all (\<lambda>ev. distinct (map fst (event_outputs ev)))
        (drop (length (trace example_fanout_state))
              (trace (snd (run_interface True example_fanout_state))))
   \<and> map_of (res_outputs (the (result (self (snd (run_interface True example_fanout_state))))))
         ''used''
       = Some (PList [PInt 0, PInt 1])
   \<and> (\<exists>v0 evs r. bunch_get (inputs (interface (self example_fanout_state))) ''frac'' = Inr v0
         \<and> trace (snd (run_interface True example_fanout_state)) = trace example_fanout_state @ evs
         \<and> length evs = length (elements v0)
         \<and> (\<forall>i < length evs. bunch_get (event_inputs (evs ! i)) ''frac'' = Inr (elements v0 ! i))
         \<and> result (self (snd (run_interface True example_fanout_state))) = Some r
         \<and> (\<forall>k. map_of (res_outputs r) k = collected k (map event_outputs evs))
         \<and> (\<forall>k. evs \<noteq> [] \<and> list_all (\<lambda>ev. map_of (event_outputs ev) k \<noteq> None) evs \<longrightarrow>
                map_of (res_outputs r) k =
                Some (PList (map (\<lambda>ev. the (map_of (event_outputs ev) k)) evs))))"
proof -
  have itf: "iterfield (self example_fanout_state) = [''frac'']"
    by code_simp
  have ok: "\<not> isl (fst (run_interface True example_fanout_state))"
    by code_simp
  have dict: "list_all (\<lambda>ev. distinct (map fst (event_outputs ev)))
        (drop (length (trace example_fanout_state))
              (trace (snd (run_interface True example_fanout_state))))"
    by code_simp
  have u: "map_of (res_outputs (the (result (self (snd (run_interface True example_fanout_state))))))
         ''used'' = Some (PList [PInt 0, PInt 1])"
    by code_simp
  from itf ok dict u fanout_outputs_in_iteration_order [OF itf ok dict] show ?thesis
    by (intro conjI)
qed

section \<open>The hash of the inputs, and input isolation\<close>

lemma sorted_keys_unique:
  assumes "distinct (map fst b1)" and "distinct (map fst b2)" and "map_of b1 = map_of b2"
  shows "sort (map fst b1) = sort (map fst b2)"
proof -
  from assms(3) have "dom (map_of b1) = dom (map_of b2)" by simp
  then have "set (map fst b1) = set (map fst b2)" by (simp add: dom_map_of_conv_image_fst)
  then have "set (sort (map fst b1)) = set (sort (map fst b2))" by simp
  moreover have "distinct (sort (map fst b1))" "distinct (sort (map fst b2))"
    using assms(1,2) by simp_all
  moreover have "sorted (sort (map fst b1))" "sorted (sort (map fst b2))"
    by simp_all
  ultimately show ?thesis by (intro sorted_distinct_set_unique)
qed

text \<open>
  C4. With the string form of the inputs modelled from the spec, two nodes whose inputs
  are the same mapping have the same hash, in whatever order the entries were set; in
  particular the hash of a node is a function of its inputs alone.
\<close>

theorem hash_inputs_order_independent:
  assumes "bunch_str os = bunch_repr render"
    and "distinct (map fst (inputs (interface n1)))"
    and "distinct (map fst (inputs (interface n2)))"
    and "map_of (inputs (interface n1)) = map_of (inputs (interface n2))"
  shows "hash_inputs os n1 = hash_inputs os n2"
  using assms sorted_keys_unique [OF assms(2,3,4)]
  by (simp add: hash_inputs_def bunch_repr_def)

theorem hash_inputs_order_independent_witness:
  "bunch_str example_os = bunch_repr example_render
   \<and> distinct (map fst (inputs (interface example_node_ab)))
   \<and> distinct (map fst (inputs (interface example_node_ba)))
   \<and> inputs (interface example_node_ab) \<noteq> inputs (interface example_node_ba)
   \<and> map_of (inputs (interface example_node_ab)) = map_of (inputs (interface example_node_ba))
   \<and> hash_inputs example_os example_node_ab = hash_inputs example_os example_node_ba"
proof -
  have s: "bunch_str example_os = bunch_repr example_render"
    by (simp add: example_os_def)
  have d1: "distinct (map fst (inputs (interface example_node_ab)))"
    by code_simp
  have d2: "distinct (map fst (inputs (interface example_node_ba)))"
    by code_simp
  have ne: "inputs (interface example_node_ab) \<noteq> inputs (interface example_node_ba)"
    by code_simp
  have m: "map_of (inputs (interface example_node_ab)) = map_of (inputs (interface example_node_ba))"
    by (rule ext) (simp add: example_node_ab_def example_node_ba_def example_node_def
                     example_interface_def)
  from s d1 d2 ne m hash_inputs_order_independent [OF s d1 d2 m] show ?thesis
    by (intro conjI)
qed

lemma grows_iff:
  "grows st st' \<longleftrightarrow> length st \<le> length st' \<and> (\<forall>a < length st. st' ! a = st ! a)"
  by (auto simp add: grows_def list_all_iff)

lemma grows_refl: "grows st st"
  by (simp add: grows_iff)

lemma grows_trans: "grows st st' \<Longrightarrow> grows st' st'' \<Longrightarrow> grows st st''"
  by (auto simp add: grows_iff)

lemma grows_snoc: "grows st st' \<Longrightarrow> grows st (st' @ [x])"
  by (auto simp add: grows_iff nth_append)

lemma external_mutation_iff:
  "external_mutation lo hi st st' \<longleftrightarrow>
     length st \<le> length st' \<and> (\<forall>a. lo \<le> a \<and> a < hi \<longrightarrow> st' ! a = st ! a)"
  by (auto simp add: external_mutation_def list_all_iff)

lemma deepcopy_fresh:
  "deref d st0 v = Some t \<Longrightarrow> grows st0 st \<Longrightarrow>
     \<exists>c st'. deepcopy_store d v st = Some (c, st') \<and> grows st st' \<and>
       (\<forall>st''. external_mutation (length st) (length st') st' st'' \<longrightarrow> deref d st'' c = Some t)"
  "deref_list d st0 vs = Some ts \<Longrightarrow> grows st0 st \<Longrightarrow>
     \<exists>cs st'. deepcopy_list d vs st = Some (cs, st') \<and> grows st st' \<and>
       (\<forall>st''. external_mutation (length st) (length st') st' st'' \<longrightarrow> deref_list d st'' cs = Some ts)"
proof (induction d v st and d vs st arbitrary: t and ts rule: deepcopy_store_deepcopy_list.induct)
  case (1 d a st)
  then show ?case by (auto simp add: grows_refl)
next
  case (2 a st)
  then show ?case by simp
next
  case (3 d a st)
  from "3.prems"(1) obtain ts where a0: "a < length st0"
    and rd: "deref_list d st0 (st0 ! a) = Some ts" and t: "t = PList ts"
    by (auto split: if_splits option.splits)
  from a0 "3.prems"(2) have a: "a < length st" and same: "st ! a = st0 ! a"
    by (auto simp add: grows_iff)
  from "3.IH" [OF a rd [folded same] "3.prems"(2)]
  obtain cs st1 where c: "deepcopy_list d (st ! a) st = Some (cs, st1)" and g: "grows st st1"
    and iso: "\<forall>st''. external_mutation (length st) (length st1) st1 st'' \<longrightarrow>
                deref_list d st'' cs = Some ts"
    by blast
  have "deref (Suc d) st'' (Ref (length st1)) = Some t"
    if m: "external_mutation (length st) (length (st1 @ [cs])) (st1 @ [cs]) st''" for st''
  proof -
    from m g have l: "length st1 < length st''" and top: "st'' ! length st1 = cs"
      by (auto simp add: external_mutation_iff grows_iff nth_append)
    from m have "external_mutation (length st) (length st1) st1 st''"
      by (auto simp add: external_mutation_iff nth_append)
    with iso have "deref_list d st'' cs = Some ts" by blast
    with l top show ?thesis by (simp add: t)
  qed
  with a c g show ?case by (auto intro: grows_snoc)
next
  case (4 d st)
  then show ?case by (auto simp add: grows_refl)
next
  case (5 d x xs st)
  from "5.prems"(1) obtain t' ts' where r1: "deref d st0 x = Some t'"
    and r2: "deref_list d st0 xs = Some ts'" and ts: "ts = t' # ts'"
    by (auto split: option.splits)
  from "5.IH"(1) [OF r1 "5.prems"(2)]
  obtain c st1 where c: "deepcopy_store d x st = Some (c, st1)" and g1: "grows st st1"
    and iso1: "\<forall>st''. external_mutation (length st) (length st1) st1 st'' \<longrightarrow>
                 deref d st'' c = Some t'"
    by blast
  from "5.prems"(2) g1 have g01: "grows st0 st1" by (rule grows_trans)
  from "5.IH"(2) [OF c refl r2 g01]
  obtain cs st2 where cs: "deepcopy_list d xs st1 = Some (cs, st2)" and g2: "grows st1 st2"
    and iso2: "\<forall>st''. external_mutation (length st1) (length st2) st2 st'' \<longrightarrow>
                 deref_list d st'' cs = Some ts'"
    by blast
  have "deref_list d st'' (c # cs) = Some ts"
    if m: "external_mutation (length st) (length st2) st2 st''" for st''
  proof -
    from m g1 g2 have "external_mutation (length st) (length st1) st1 st''"
      by (auto simp add: external_mutation_iff grows_iff)
    with iso1 have "deref d st'' c = Some t'" by blast
    moreover from m g1 have "external_mutation (length st1) (length st2) st2 st''"
      by (auto simp add: external_mutation_iff grows_iff)
    with iso2 have "deref_list d st'' cs = Some ts'" by blast
    ultimately show ?thesis by (simp add: ts)
  qed
  with c cs g1 g2 show ?case by (auto intro: grows_trans)
qed

lemma deepcopy_store_isolated:
  assumes "deref d st v = Some t"
  shows "\<exists>c st2. deepcopy_store d v st = Some (c, st2) \<and>
           (\<forall>st''. external_mutation (length st) (length st2) st2 st'' \<longrightarrow>
                    deref d st'' c = Some t)"
  using deepcopy_fresh(1) [OF assms grows_refl] by blast

text \<open>
  C9. \<^verbatim>\<open>set_input\<close> on a value that reads as \<open>t\<close> in the store (given as it is, or
  returned by the callable it was given, run on the arguments) succeeds and binds the
  parameter to a value that reads as \<open>t\<close>, and still does after any later change of
  the objects that existed when the copy was made, and any addition of new ones.
\<close>

theorem set_input_store_isolated:
  "(deref d (st_store s) v = Some t \<longrightarrow>
      fst (set_input_store d parameter (StoreLiteral v) args s) = Some (Inr ()) \<and>
      (\<forall>st''. external_mutation (length (st_store s))
                (length (st_store (snd (set_input_store d parameter (StoreLiteral v) args s))))
                (st_store (snd (set_input_store d parameter (StoreLiteral v) args s))) st'' \<longrightarrow>
             (\<exists>c. map_of (st_inputs (snd (set_input_store d parameter (StoreLiteral v) args s)))
                          parameter = Some c
                  \<and> deref d st'' c = Some t)))
   \<and> (g args (st_store s) = (Inr v, st1) \<and> deref d st1 v = Some t \<longrightarrow>
      fst (set_input_store d parameter (StoreCallable g) args s) = Some (Inr ()) \<and>
      (\<forall>st''. external_mutation (length st1)
                (length (st_store (snd (set_input_store d parameter (StoreCallable g) args s))))
                (st_store (snd (set_input_store d parameter (StoreCallable g) args s))) st'' \<longrightarrow>
             (\<exists>c. map_of (st_inputs (snd (set_input_store d parameter (StoreCallable g) args s)))
                          parameter = Some c
                  \<and> deref d st'' c = Some t)))"
proof (intro conjI impI)
  assume rd: "deref d (st_store s) v = Some t"
  from deepcopy_store_isolated [OF this]
  obtain c st2 where dc: "deepcopy_store d v (st_store s) = Some (c, st2)"
    and iso: "\<forall>st''. external_mutation (length (st_store s)) (length st2) st2 st''
                \<longrightarrow> deref d st'' c = Some t"
    by blast
  from dc have r: "set_input_store d parameter (StoreLiteral v) args s =
      (Some (Inr ()), \<lparr>st_inputs = AList.update parameter c (st_inputs s), st_store = st2\<rparr>)"
    by (simp add: set_input_store_def)
  show "fst (set_input_store d parameter (StoreLiteral v) args s) = Some (Inr ())"
    by (simp add: r)
  show "\<forall>st''. external_mutation (length (st_store s))
                (length (st_store (snd (set_input_store d parameter (StoreLiteral v) args s))))
                (st_store (snd (set_input_store d parameter (StoreLiteral v) args s))) st'' \<longrightarrow>
             (\<exists>c. map_of (st_inputs (snd (set_input_store d parameter (StoreLiteral v) args s)))
                          parameter = Some c
                  \<and> deref d st'' c = Some t)"
    using iso by (simp add: r update_conv')
next
  assume "g args (st_store s) = (Inr v, st1) \<and> deref d st1 v = Some t"
  then have call: "g args (st_store s) = (Inr v, st1)" and rd: "deref d st1 v = Some t"
    by simp_all
  from deepcopy_store_isolated [OF rd]
  obtain c st2 where dc: "deepcopy_store d v st1 = Some (c, st2)"
    and iso: "\<forall>st''. external_mutation (length st1) (length st2) st2 st''
                \<longrightarrow> deref d st'' c = Some t"
    by blast
  from call dc have r: "set_input_store d parameter (StoreCallable g) args s =
      (Some (Inr ()), \<lparr>st_inputs = AList.update parameter c (st_inputs s), st_store = st2\<rparr>)"
    by (simp add: set_input_store_def)
  show "fst (set_input_store d parameter (StoreCallable g) args s) = Some (Inr ())"
    by (simp add: r)
  show "\<forall>st''. external_mutation (length st1)
                (length (st_store (snd (set_input_store d parameter (StoreCallable g) args s))))
                (st_store (snd (set_input_store d parameter (StoreCallable g) args s))) st'' \<longrightarrow>
             (\<exists>c. map_of (st_inputs (snd (set_input_store d parameter (StoreCallable g) args s)))
                          parameter = Some c
                  \<and> deref d st'' c = Some t)"
    using iso by (simp add: r update_conv')
qed

theorem set_input_store_isolated_witness:
  "deref 3 (st_store example_store_state) (Ref 0) = Some (PList [PInt 1, PInt 2])
   \<and> example_callable [] (st_store example_store_state) = (Inr (Ref 0), st_store example_store_state)
   \<and> external_mutation 1 2
        (st_store (snd (set_input_store 3 ''x'' (StoreLiteral (Ref 0)) [] example_store_state)))
        example_mutated_store
   \<and> external_mutation 1 2
        (st_store (snd (set_input_store 3 ''x'' (StoreCallable example_callable) [] example_store_state)))
        example_mutated_store
   \<and> deref 3 example_mutated_store (Ref 0) = Some (PList [PInt 99])
   \<and> (\<exists>c. map_of (st_inputs (snd (set_input_store 3 ''x'' (StoreLiteral (Ref 0)) []
                                      example_store_state))) ''x'' = Some c
          \<and> deref 3 example_mutated_store c = Some (PList [PInt 1, PInt 2]))
   \<and> (\<exists>c. map_of (st_inputs (snd (set_input_store 3 ''x'' (StoreCallable example_callable) []
                                      example_store_state))) ''x'' = Some c
          \<and> deref 3 example_mutated_store c = Some (PList [PInt 1, PInt 2]))"
proof -
  let ?t = "PList [PInt 1, PInt 2]"
  have rd: "deref 3 (st_store example_store_state) (Ref 0) = Some ?t"
    by code_simp
  have cl: "example_callable [] (st_store example_store_state) =
              (Inr (Ref 0), st_store example_store_state)"
    by (simp add: example_callable_def)
  have l1: "length (st_store example_store_state) = 1"
    by code_simp
  have l2: "length (st_store (snd (set_input_store 3 ''x'' (StoreLiteral (Ref 0)) []
                                     example_store_state))) = 2"
    by code_simp
  have l3: "length (st_store (snd (set_input_store 3 ''x'' (StoreCallable example_callable) []
                                     example_store_state))) = 2"
    by code_simp
  have m1: "external_mutation 1 2
        (st_store (snd (set_input_store 3 ''x'' (StoreLiteral (Ref 0)) [] example_store_state)))
        example_mutated_store"
    by code_simp
  have m2: "external_mutation 1 2
        (st_store (snd (set_input_store 3 ''x'' (StoreCallable example_callable) [] example_store_state)))
        example_mutated_store"
    by code_simp
  have ch: "deref 3 example_mutated_store (Ref 0) = Some (PList [PInt 99])"
    by code_simp
  note iso = set_input_store_isolated [of 3 example_store_state "Ref 0" ?t "''x''" "[]"
               example_callable "st_store example_store_state"]
  from iso rd m1 l1 l2
  have a: "\<exists>c. map_of (st_inputs (snd (set_input_store 3 ''x'' (StoreLiteral (Ref 0)) []
                                      example_store_state))) ''x'' = Some c
          \<and> deref 3 example_mutated_store c = Some ?t"
    by simp
  from iso rd cl m2 l1 l3
  have b: "\<exists>c. map_of (st_inputs (snd (set_input_store 3 ''x'' (StoreCallable example_callable) []
                                      example_store_state))) ''x'' = Some c
          \<and> deref 3 example_mutated_store c = Some ?t"
    by simp
  from rd cl m1 m2 ch a b show ?thesis
    by (intro conjI)
qed

end
